theory Spec2Isabelle
  imports Main "HOL-Library.Sublist"
begin

section \<open>Python values\<close>

text \<open>
  The parameters of a tool call arrive as a JSON object. The model keeps the values
  \<open>None\<close>, booleans, integers, strings and lists of integers (the shape of a
  coordinate); floating-point numbers and nested objects are outside it. A string is the
  list of its code points, and the model covers code points below 256.
\<close>

datatype pyval = PNone | PBool bool | PInt int | PStr string | PList "int list"

type_synonym params = "string \<rightharpoonup> pyval"

text \<open>
  Exceptions, each with the text that \<open>str(e)\<close> gives. The messages of the exceptions
  that the interpreter itself raises are those of CPython 3.12.
\<close>

datatype exn =
    TypeError string
  | ValueError string
  | IndexError string
  | AttributeError string
  | StopIteration
  | DeviceError string

fun exn_str :: "exn \<Rightarrow> string" where
  "exn_str (TypeError m) = m"
| "exn_str (ValueError m) = m"
| "exn_str (IndexError m) = m"
| "exn_str (AttributeError m) = m"
| "exn_str StopIteration = []"
| "exn_str (DeviceError m) = m"

abbreviation sq :: char where
  "sq \<equiv> CHR 0x27"

abbreviation dq :: char where
  "dq \<equiv> CHR 0x22"

fun type_name :: "pyval \<Rightarrow> string" where
  "type_name PNone = ''NoneType''"
| "type_name (PBool _) = ''bool''"
| "type_name (PInt _) = ''int''"
| "type_name (PStr _) = ''str''"
| "type_name (PList _) = ''list''"

subsection \<open>Formatting\<close>

fun str_nat :: "nat \<Rightarrow> string" where
  "str_nat n =
     (if n < 10 then [''0123456789'' ! n]
      else str_nat (n div 10) @ [''0123456789'' ! (n mod 10)])"

declare str_nat.simps [simp del]

definition str_int :: "int \<Rightarrow> string" where
  "str_int i = (if i < 0 then CHR ''-'' # str_nat (nat (- i)) else str_nat (nat i))"

fun join :: "string \<Rightarrow> string list \<Rightarrow> string" where
  "join sep [] = []"
| "join sep [x] = x"
| "join sep (x # y # ys) = x @ sep @ join sep (y # ys)"

text \<open>\<open>str(v)\<close>, as an f-string formats a value.\<close>

fun py_str :: "pyval \<Rightarrow> string" where
  "py_str PNone = ''None''"
| "py_str (PBool b) = (if b then ''True'' else ''False'')"
| "py_str (PInt i) = str_int i"
| "py_str (PStr s) = s"
| "py_str (PList xs) = ''['' @ join '', '' (map str_int xs) @ '']''"

subsection \<open>Operations on values\<close>

text \<open>The integer a value counts as in arithmetic and comparisons (\<open>bool\<close> is a subclass of \<open>int\<close>).\<close>

fun as_int :: "pyval \<Rightarrow> int option" where
  "as_int (PInt i) = Some i"
| "as_int (PBool b) = Some (if b then 1 else 0)"
| "as_int _ = None"

text \<open>The chained comparison \<open>0 <= x < w\<close>, with \<open>w\<close> an integer.\<close>

definition in_bounds :: "pyval \<Rightarrow> int \<Rightarrow> exn + bool" where
  "in_bounds x w =
     (case as_int x of
        None \<Rightarrow>
          Inl (TypeError (sq # ''<='' @ sq # '' not supported between instances of '' @ sq # ''int''
                 @ sq # '' and '' @ sq # type_name x @ [sq]))
      | Some i \<Rightarrow> Inr (0 \<le> i \<and> i < w))"

text \<open>The unpacking assignment \<open>x, y = v\<close>.\<close>

definition unpack2 :: "pyval \<Rightarrow> exn + (pyval \<times> pyval)" where
  "unpack2 v =
     (case v of
        PList xs \<Rightarrow>
          (if length xs = 2 then Inr (PInt (xs ! 0), PInt (xs ! 1))
           else if length xs < 2 then
             Inl (ValueError (''not enough values to unpack (expected 2, got ''
                    @ str_nat (length xs) @ '')''))
           else Inl (ValueError ''too many values to unpack (expected 2)''))
      | PStr s \<Rightarrow>
          (if length s = 2 then Inr (PStr [s ! 0], PStr [s ! 1])
           else if length s < 2 then
             Inl (ValueError (''not enough values to unpack (expected 2, got ''
                    @ str_nat (length s) @ '')''))
           else Inl (ValueError ''too many values to unpack (expected 2)''))
      | _ \<Rightarrow> Inl (TypeError (''cannot unpack non-iterable '' @ type_name v @ '' object'')))"

text \<open>The subscript \<open>v[i]\<close> for a constant index \<open>i \<ge> 0\<close>.\<close>

definition py_index :: "pyval \<Rightarrow> nat \<Rightarrow> exn + pyval" where
  "py_index v i =
     (case v of
        PList xs \<Rightarrow>
          (if i < length xs then Inr (PInt (xs ! i)) else Inl (IndexError ''list index out of range''))
      | PStr s \<Rightarrow>
          (if i < length s then Inr (PStr [s ! i]) else Inl (IndexError ''string index out of range''))
      | _ \<Rightarrow> Inl (TypeError (sq # type_name v @ sq # '' object is not subscriptable'')))"

text \<open>The slice \<open>v[:n]\<close>.\<close>

definition py_take :: "nat \<Rightarrow> pyval \<Rightarrow> exn + pyval" where
  "py_take n v =
     (case v of
        PList xs \<Rightarrow> Inr (PList (take n xs))
      | PStr s \<Rightarrow> Inr (PStr (take n s))
      | _ \<Rightarrow> Inl (TypeError (sq # type_name v @ sq # '' object is not subscriptable'')))"

definition py_len :: "pyval \<Rightarrow> exn + nat" where
  "py_len v =
     (case v of
        PList xs \<Rightarrow> Inr (length xs)
      | PStr s \<Rightarrow> Inr (length s)
      | _ \<Rightarrow> Inl (TypeError (''object of type '' @ sq # type_name v @ sq # '' has no len()'')))"

text \<open>Unary minus and binary minus.\<close>

definition py_neg :: "pyval \<Rightarrow> exn + pyval" where
  "py_neg v =
     (case as_int v of
        None \<Rightarrow> Inl (TypeError (''bad operand type for unary -: '' @ sq # type_name v @ [sq]))
      | Some i \<Rightarrow> Inr (PInt (- i)))"

definition py_sub :: "pyval \<Rightarrow> pyval \<Rightarrow> exn + pyval" where
  "py_sub a b =
     (case (as_int a, as_int b) of
        (Some i, Some j) \<Rightarrow> Inr (PInt (i - j))
      | _ \<Rightarrow> Inl (TypeError (''unsupported operand type(s) for -: '' @ sq # type_name a @ sq #
                  '' and '' @ sq # type_name b @ [sq])))"

subsection \<open>String methods\<close>

text \<open>\<open>str.lower\<close> on code points below 256: A to Z, and the capital letters of Latin-1.\<close>

definition lower_char :: "char \<Rightarrow> char" where
  "lower_char c =
     (let n = (of_char c :: nat)
      in if (65 \<le> n \<and> n \<le> 90) \<or> (192 \<le> n \<and> n \<le> 222 \<and> n \<noteq> 215)
         then char_of (n + 32) else c)"

definition lower :: "string \<Rightarrow> string" where
  "lower s = map lower_char s"

text \<open>
  \<open>s.replace(old, new)\<close>: the occurrences of \<open>old\<close> are found from left to right and
  do not overlap; an empty \<open>old\<close> matches before every character and at the end.
\<close>

function replace :: "string \<Rightarrow> string \<Rightarrow> string \<Rightarrow> string" where
  "replace old new s =
     (if old = [] then new @ concat (map (\<lambda>c. c # new) s)
      else if s = [] then []
      else if take (length old) s = old then new @ replace old new (drop (length old) s)
      else hd s # replace old new (tl s))"
  by pat_completeness auto
termination
  by (relation "measure (\<lambda>(old, new, s). length s)") auto

declare replace.simps [simp del]

text \<open>\<open>s.split(sep)\<close> for a separator of one character: never an empty list.\<close>

fun split :: "char \<Rightarrow> string \<Rightarrow> string list" where
  "split sep [] = [[]]"
| "split sep (c # cs) =
     (if c = sep then [] # split sep cs
      else (case split sep cs of [] \<Rightarrow> [[c]] | p # ps \<Rightarrow> (c # p) # ps))"

section \<open>The Device Capability\<close>

text \<open>
  Every call that leaves the program for the desktop: the \<open>pyautogui\<close> primitives,
  \<open>time.sleep\<close>, and the capture pipeline of \<open>_screenshot\<close> (temporary file,
  \<open>screencapture\<close>, resizing, JPEG encoding and base64) taken as one call.
  \<open>Sleep None\<close> is the sleep of the default duration \<open>1.0\<close>.
\<close>

datatype device_call =
    Screencapture
  | Click pyval pyval string
  | DoubleClick pyval pyval
  | TripleClick pyval pyval
  | MoveTo pyval pyval
  | Drag pyval pyval
  | Write pyval
  | Press string
  | Hotkey "string list"
  | Scroll pyval
  | HScroll pyval
  | Sleep "pyval option"

text \<open>
  What a capture gives: an exception, a non-zero return code of \<open>screencapture\<close> with
  its decoded standard error, or the base64 text of the JPEG.
\<close>

datatype capture_reply = CaptureRaises string | CaptureFailed string | Captured string

text \<open>
  The device is a parameter of the model. It sees the calls made so far; \<open>fault\<close> says
  whether a call raises (an \<open>Exception\<close> with that message), \<open>capture\<close> what a
  capture gives.
\<close>

record device =
  fault :: "device_call list \<Rightarrow> device_call \<Rightarrow> string option"
  capture :: "device_call list \<Rightarrow> capture_reply"

text \<open>A computation that may raise, over the list of device calls made so far.\<close>

type_synonym 'a act = "device_call list \<Rightarrow> (exn + 'a) \<times> device_call list"

definition ret :: "'a \<Rightarrow> 'a act" where
  "ret x tr = (Inr x, tr)"

definition lift :: "exn + 'a \<Rightarrow> 'a act" where
  "lift r tr = (r, tr)"

definition seq :: "'a act \<Rightarrow> ('a \<Rightarrow> 'b act) \<Rightarrow> 'b act" where
  "seq m f tr = (case m tr of (Inl e, tr') \<Rightarrow> (Inl e, tr') | (Inr x, tr') \<Rightarrow> f x tr')"

definition invoke :: "device \<Rightarrow> device_call \<Rightarrow> unit act" where
  "invoke dev c tr =
     (case fault dev tr c of
        Some m \<Rightarrow> (Inl (DeviceError m), tr @ [c])
      | None \<Rightarrow> (Inr (), tr @ [c]))"

text \<open>
  Whether a call raises, for every call alike, and the first fault met when the calls
  \<open>cs\<close> are made one after the other.
\<close>

definition raised :: "device \<Rightarrow> device_call list \<Rightarrow> device_call \<Rightarrow> string option" where
  "raised dev tr c =
     (case c of
        Screencapture \<Rightarrow> (case capture dev tr of CaptureRaises m \<Rightarrow> Some m | _ \<Rightarrow> None)
      | _ \<Rightarrow> fault dev tr c)"

fun first_fault :: "device \<Rightarrow> device_call list \<Rightarrow> device_call list \<Rightarrow> string option" where
  "first_fault dev tr [] = None"
| "first_fault dev tr (c # cs) =
     (case raised dev tr c of Some m \<Rightarrow> Some m | None \<Rightarrow> first_fault dev (tr @ [c]) cs)"

section \<open>ComputerTool\<close>

record config =
  display_width :: int
  display_height :: int
  max_iterations :: int

text \<open>The dictionary a handler returns: it has the key \<open>error\<close>, or \<open>result\<close>, or is an image.\<close>

datatype outcome = Error string | Result string | Image string string

text \<open>A keyword argument with default \<open>None\<close>.\<close>

definition arg :: "params \<Rightarrow> string \<Rightarrow> pyval" where
  "arg p k = (case p k of None \<Rightarrow> PNone | Some v \<Rightarrow> v)"

text \<open>
  \<open>_validate_coordinates\<close>: \<open>None\<close> stands for the pair \<open>(True, None)\<close>, and
  \<open>Some msg\<close> for \<open>(False, msg)\<close>.
\<close>

definition validate_coordinates :: "config \<Rightarrow> pyval \<Rightarrow> pyval \<Rightarrow> exn + string option" where
  "validate_coordinates cfg x y =
     (case in_bounds x (display_width cfg) of
        Inl e \<Rightarrow> Inl e
      | Inr okx \<Rightarrow>
          if \<not> okx then
            Inr (Some (''X coordinate '' @ py_str x @ '' is outside display bounds (0-''
                   @ str_int (display_width cfg - 1) @ '')''))
          else
            (case in_bounds y (display_height cfg) of
               Inl e \<Rightarrow> Inl e
             | Inr oky \<Rightarrow>
                 if \<not> oky then
                   Inr (Some (''Y coordinate '' @ py_str y @ '' is outside display bounds (0-''
                          @ str_int (display_height cfg - 1) @ '')''))
                 else Inr None))"

definition screenshot :: "config \<Rightarrow> device \<Rightarrow> params \<Rightarrow> outcome act" where
  "screenshot cfg dev p tr =
     (case capture dev tr of
        CaptureRaises m \<Rightarrow> (Inl (DeviceError m), tr @ [Screencapture])
      | CaptureFailed err \<Rightarrow> (Inr (Error (''Screenshot failed: '' @ err)), tr @ [Screencapture])
      | Captured b64 \<Rightarrow> (Inr (Image ''image/jpeg'' b64), tr @ [Screencapture]))"

text \<open>
  The five click handlers and \<open>_mouse_move\<close> are one text in the source, up to the action's
  name, the device call and the verb of the result.
\<close>

definition at_coordinate ::
  "config \<Rightarrow> device \<Rightarrow> string \<Rightarrow> (pyval \<Rightarrow> pyval \<Rightarrow> device_call) \<Rightarrow> string \<Rightarrow> params \<Rightarrow> outcome act" where
  "at_coordinate cfg dev name call verb p =
     (if arg p ''coordinate'' = PNone then ret (Error (''coordinate is required for '' @ name))
      else
        seq (lift (unpack2 (arg p ''coordinate''))) (\<lambda>(x, y).
        seq (lift (validate_coordinates cfg x y)) (\<lambda>error.
          case error of
            Some msg \<Rightarrow> ret (Error msg)
          | None \<Rightarrow>
              seq (invoke dev (call x y)) (\<lambda>_.
              ret (Result (verb @ '' ('' @ py_str x @ '', '' @ py_str y @ '')''))))))"

definition left_click :: "config \<Rightarrow> device \<Rightarrow> params \<Rightarrow> outcome act" where
  "left_click cfg dev =
     at_coordinate cfg dev ''left_click'' (\<lambda>x y. Click x y ''left'') ''Left clicked at''"

definition right_click :: "config \<Rightarrow> device \<Rightarrow> params \<Rightarrow> outcome act" where
  "right_click cfg dev =
     at_coordinate cfg dev ''right_click'' (\<lambda>x y. Click x y ''right'') ''Right clicked at''"

definition middle_click :: "config \<Rightarrow> device \<Rightarrow> params \<Rightarrow> outcome act" where
  "middle_click cfg dev =
     at_coordinate cfg dev ''middle_click'' (\<lambda>x y. Click x y ''middle'') ''Middle clicked at''"

definition double_click :: "config \<Rightarrow> device \<Rightarrow> params \<Rightarrow> outcome act" where
  "double_click cfg dev =
     at_coordinate cfg dev ''double_click'' DoubleClick ''Double clicked at''"

definition triple_click :: "config \<Rightarrow> device \<Rightarrow> params \<Rightarrow> outcome act" where
  "triple_click cfg dev =
     at_coordinate cfg dev ''triple_click'' TripleClick ''Triple clicked at''"

definition mouse_move :: "config \<Rightarrow> device \<Rightarrow> params \<Rightarrow> outcome act" where
  "mouse_move cfg dev =
     at_coordinate cfg dev ''mouse_move'' MoveTo ''Moved mouse to''"

definition left_click_drag :: "config \<Rightarrow> device \<Rightarrow> params \<Rightarrow> outcome act" where
  "left_click_drag cfg dev p =
     (if arg p ''start_coordinate'' = PNone \<or> arg p ''coordinate'' = PNone then
        ret (Error ''start_coordinate and coordinate are required for left_click_drag'')
      else
        seq (lift (unpack2 (arg p ''start_coordinate''))) (\<lambda>(start_x, start_y).
        seq (lift (unpack2 (arg p ''coordinate''))) (\<lambda>(end_x, end_y).
        seq (lift (validate_coordinates cfg start_x start_y)) (\<lambda>error.
          case error of
            Some msg \<Rightarrow> ret (Error (''Start '' @ msg))
          | None \<Rightarrow>
              seq (lift (validate_coordinates cfg end_x end_y)) (\<lambda>error.
                case error of
                  Some msg \<Rightarrow> ret (Error (''End '' @ msg))
                | None \<Rightarrow>
                    seq (invoke dev (MoveTo start_x start_y)) (\<lambda>_.
                    seq (lift (py_sub end_x start_x)) (\<lambda>dx.
                    seq (lift (py_sub end_y start_y)) (\<lambda>dy.
                    seq (invoke dev (Drag dx dy)) (\<lambda>_.
                    ret (Result (''Dragged from ('' @ py_str start_x @ '', '' @ py_str start_y
                           @ '') to ('' @ py_str end_x @ '', '' @ py_str end_y @ '')'')))))))))))"

definition type_text :: "config \<Rightarrow> device \<Rightarrow> params \<Rightarrow> outcome act" where
  "type_text cfg dev p =
     (if arg p ''text'' = PNone then ret (Error ''text is required for type'')
      else
        seq (invoke dev (Write (arg p ''text''))) (\<lambda>_.
        seq (lift (py_take 50 (arg p ''text''))) (\<lambda>head.
        seq (lift (py_len (arg p ''text''))) (\<lambda>n.
        ret (Result (''Typed: '' @ py_str head @ (if n > 50 then ''...'' else '''')))))))"

definition key_press :: "config \<Rightarrow> device \<Rightarrow> params \<Rightarrow> outcome act" where
  "key_press cfg dev p =
     (if arg p ''key'' = PNone then ret (Error ''key is required for key action'')
      else
        (case arg p ''key'' of
           PStr key \<Rightarrow>
             (let keys = split CHR ''+'' (replace ''ctrl'' ''command'' (lower key))
              in seq (if length keys = 1 then invoke dev (Press (keys ! 0))
                      else invoke dev (Hotkey keys)) (\<lambda>_.
                 ret (Result (''Pressed key: '' @ key))))
         | v \<Rightarrow>
             lift (Inl (AttributeError (sq # type_name v @ sq # '' object has no attribute ''
                          @ sq # ''lower'' @ [sq])))))"

definition scroll :: "config \<Rightarrow> device \<Rightarrow> params \<Rightarrow> outcome act" where
  "scroll cfg dev p =
     (let scroll_direction = arg p ''scroll_direction'';
          scroll_amount = (case p ''scroll_amount'' of None \<Rightarrow> PInt 3 | Some v \<Rightarrow> v)
      in
      if arg p ''coordinate'' = PNone then ret (Error ''coordinate is required for scroll'')
      else if scroll_direction = PNone then ret (Error ''scroll_direction is required for scroll'')
      else
        seq (lift (unpack2 (arg p ''coordinate''))) (\<lambda>(x, y).
        seq (lift (validate_coordinates cfg x y)) (\<lambda>error.
          case error of
            Some msg \<Rightarrow> ret (Error msg)
          | None \<Rightarrow>
              seq (invoke dev (MoveTo x y)) (\<lambda>_.
              let done = ret (Result (''Scrolled '' @ py_str scroll_direction @ '' by ''
                                @ py_str scroll_amount @ '' at ('' @ py_str x @ '', ''
                                @ py_str y @ '')''))
              in
              if scroll_direction = PStr ''up'' then
                seq (invoke dev (Scroll scroll_amount)) (\<lambda>_. done)
              else if scroll_direction = PStr ''down'' then
                seq (lift (py_neg scroll_amount)) (\<lambda>a. seq (invoke dev (Scroll a)) (\<lambda>_. done))
              else if scroll_direction = PStr ''left'' then
                seq (lift (py_neg scroll_amount)) (\<lambda>a. seq (invoke dev (HScroll a)) (\<lambda>_. done))
              else if scroll_direction = PStr ''right'' then
                seq (invoke dev (HScroll scroll_amount)) (\<lambda>_. done)
              else ret (Error (''Invalid scroll direction: '' @ py_str scroll_direction))))))"

definition wait :: "config \<Rightarrow> device \<Rightarrow> params \<Rightarrow> outcome act" where
  "wait cfg dev p =
     seq (invoke dev (Sleep (p ''duration''))) (\<lambda>_.
     ret (Result (''Waited '' @ (case p ''duration'' of None \<Rightarrow> ''1.0'' | Some d \<Rightarrow> py_str d)
            @ '' seconds'')))"

definition action_handlers :: "config \<Rightarrow> device \<Rightarrow> (string \<times> (params \<Rightarrow> outcome act)) list" where
  "action_handlers cfg dev =
     [(''screenshot'', screenshot cfg dev),
      (''left_click'', left_click cfg dev),
      (''right_click'', right_click cfg dev),
      (''middle_click'', middle_click cfg dev),
      (''double_click'', double_click cfg dev),
      (''triple_click'', triple_click cfg dev),
      (''left_click_drag'', left_click_drag cfg dev),
      (''mouse_move'', mouse_move cfg dev),
      (''type'', type_text cfg dev),
      (''key'', key_press cfg dev),
      (''scroll'', scroll cfg dev),
      (''wait'', wait cfg dev)]"

text \<open>
  \<open>execute\<close>. The lookup in the table hashes the action, which raises for a list, before
  the \<open>try\<close>; a value that is no string is not found. Whatever the handler raises is an
  \<open>Exception\<close> and becomes an error. A parameter whose name is \<open>self\<close> or
  \<open>action\<close> cannot be passed as a keyword and is outside the model.
\<close>

definition execute :: "config \<Rightarrow> device \<Rightarrow> pyval \<Rightarrow> params \<Rightarrow> outcome act" where
  "execute cfg dev action p tr =
     (case action of
        PList _ \<Rightarrow> (Inl (TypeError (''unhashable type: '' @ sq # ''list'' @ [sq])), tr)
      | _ \<Rightarrow>
        (case (case action of PStr name \<Rightarrow> map_of (action_handlers cfg dev) name | _ \<Rightarrow> None) of
           None \<Rightarrow> (Inr (Error (''Unknown action: '' @ py_str action)), tr)
         | Some handler \<Rightarrow>
             (case handler p tr of
                (Inl e, tr') \<Rightarrow>
                  (Inr (Error (''Action '' @ sq # py_str action @ sq # '' failed: '' @ exn_str e)), tr')
              | (Inr r, tr') \<Rightarrow> (Inr r, tr'))))"

text \<open>A value read with \<open>params.get(k, default)\<close>.\<close>

definition get_default :: "params \<Rightarrow> string \<Rightarrow> pyval \<Rightarrow> pyval" where
  "get_default p k d = (case p k of None \<Rightarrow> d | Some v \<Rightarrow> v)"

text \<open>The text \<open>(a, b)\<close> made of \<open>coord[0]\<close> and \<open>coord[1]\<close>.\<close>

definition pair_text :: "pyval \<Rightarrow> exn + string" where
  "pair_text coord =
     (case py_index coord 0 of
        Inl e \<Rightarrow> Inl e
      | Inr a \<Rightarrow>
          (case py_index coord 1 of
             Inl e \<Rightarrow> Inl e
           | Inr b \<Rightarrow> Inr (''('' @ py_str a @ '', '' @ py_str b @ '')'')))"

definition describe_at :: "string \<Rightarrow> params \<Rightarrow> exn + string" where
  "describe_at verb p =
     (case pair_text (get_default p ''coordinate'' (PList [0, 0])) of
        Inl e \<Rightarrow> Inl e
      | Inr t \<Rightarrow> Inr (verb @ '' '' @ t))"

text \<open>
  \<open>describe_action\<close>. In the branch of \<open>type\<close>, the conditional expression tests
  \<open>len(text) > 30\<close> first, and concatenating a list and \<open>"..."\<close> raises.
\<close>

definition describe_action :: "pyval \<Rightarrow> params \<Rightarrow> exn + string" where
  "describe_action action p =
     (if action = PStr ''screenshot'' then Inr ''Take a screenshot''
      else if action = PStr ''left_click'' then describe_at ''Left click at'' p
      else if action = PStr ''right_click'' then describe_at ''Right click at'' p
      else if action = PStr ''double_click'' then describe_at ''Double click at'' p
      else if action = PStr ''mouse_move'' then describe_at ''Move mouse to'' p
      else if action = PStr ''type'' then
        (let text = get_default p ''text'' (PStr '''')
         in case py_len text of
              Inl e \<Rightarrow> Inl e
            | Inr n \<Rightarrow>
                if n > 30 then
                  (case text of
                     PStr s \<Rightarrow> Inr (''Type: '' @ sq # take 30 s @ ''...'' @ [sq])
                   | _ \<Rightarrow> Inl (TypeError (''can only concatenate list (not '' @ dq # ''str'' @ dq # '') to list'')))
                else Inr (''Type: '' @ sq # py_str text @ [sq]))
      else if action = PStr ''key'' then
        Inr (''Press key: '' @ py_str (get_default p ''key'' (PStr '''')))
      else if action = PStr ''scroll'' then
        Inr (''Scroll '' @ py_str (get_default p ''scroll_direction'' (PStr ''down''))
               @ '' by '' @ py_str (get_default p ''scroll_amount'' (PInt 3)))
      else if action = PStr ''wait'' then
        Inr (''Wait '' @ (case p ''duration'' of None \<Rightarrow> ''1.0'' | Some d \<Rightarrow> py_str d)
               @ '' seconds'')
      else if action = PStr ''left_click_drag'' then
        (case pair_text (get_default p ''start_coordinate'' (PList [0, 0])) of
           Inl e \<Rightarrow> Inl e
         | Inr s \<Rightarrow>
             (case pair_text (get_default p ''coordinate'' (PList [0, 0])) of
                Inl e \<Rightarrow> Inl e
              | Inr t \<Rightarrow> Inr (''Drag from '' @ s @ '' to '' @ t)))
      else Inr (''Unknown action: '' @ py_str action))"

section \<open>ComputerUseAgent\<close>

text \<open>
  The blocks of a response: a text block, or a \<open>tool_use\<close> block with its \<open>id\<close>,
  \<open>name\<close> and \<open>input\<close>.
\<close>

datatype block = TextBlock string | ToolUseBlock string string params

record response =
  content :: "block list"
  stop_reason :: string

datatype result_body = TextBody string | ImageBody string string

text \<open>A \<open>tool_result\<close> dictionary; a missing \<open>is_error\<close> is \<open>False\<close>.\<close>

record tool_result =
  tool_use_id :: string
  body :: result_body
  is_error :: bool

datatype message = UserTask string | AssistantTurn "block list" | UserResults "tool_result list"

definition create_tool_result :: "string \<Rightarrow> outcome \<Rightarrow> tool_result" where
  "create_tool_result tool_id r =
     (case r of
        Error m \<Rightarrow> \<lparr>tool_use_id = tool_id, body = TextBody m, is_error = True\<rparr>
      | Image media_type data \<Rightarrow>
          \<lparr>tool_use_id = tool_id, body = ImageBody media_type data, is_error = False\<rparr>
      | Result t \<Rightarrow> \<lparr>tool_use_id = tool_id, body = TextBody t, is_error = False\<rparr>)"

text \<open>
  The confirmation callback returns a truth value or raises; it sees the descriptions it
  was asked about before, so it may answer differently each time.
\<close>

datatype gate_reply = Returns bool | Raises exn

type_synonym gate = "string list \<Rightarrow> string \<Rightarrow> gate_reply"

record world =
  trace :: "device_call list"
  asked :: "string list"

text \<open>
  The test \<open>if self.confirm_callback and action != "screenshot"\<close> and the call of the
  callback; without a callback, and for a screenshot, the action goes ahead unasked.
\<close>

definition consult :: "gate option \<Rightarrow> pyval \<Rightarrow> string \<Rightarrow> world \<Rightarrow> gate_reply \<times> world" where
  "consult confirm_callback action action_desc w =
     (case confirm_callback of
        None \<Rightarrow> (Returns True, w)
      | Some g \<Rightarrow>
          if action \<noteq> PStr ''screenshot'' then
            (g (asked w) action_desc, w\<lparr>asked := asked w @ [action_desc]\<rparr>)
          else (Returns True, w))"

text \<open>\<open>_process_tool_calls\<close>: the loop over the blocks, with \<open>tool_results\<close> as accumulator.\<close>

fun process_tool_calls ::
  "config \<Rightarrow> device \<Rightarrow> gate option \<Rightarrow> block list \<Rightarrow> tool_result list \<Rightarrow> world
     \<Rightarrow> (exn + tool_result list) \<times> world" where
  "process_tool_calls cfg dev cb [] tool_results w = (Inr tool_results, w)"
| "process_tool_calls cfg dev cb (TextBlock t # bs) tool_results w =
     process_tool_calls cfg dev cb bs tool_results w"
| "process_tool_calls cfg dev cb (ToolUseBlock tool_id tool_name tool_input # bs) tool_results w =
     (if tool_name \<noteq> ''computer'' then
        process_tool_calls cfg dev cb bs
          (tool_results @ [\<lparr>tool_use_id = tool_id,
                            body = TextBody (''Unknown tool: '' @ tool_name),
                            is_error = True\<rparr>]) w
      else
        (let action = get_default tool_input ''action'' (PStr '''');
             action_params = tool_input |` (- {''action''})
         in case describe_action action action_params of
              Inl e \<Rightarrow> (Inl e, w)
            | Inr action_desc \<Rightarrow>
                (case consult cb action action_desc w of
                   (Raises e, w1) \<Rightarrow> (Inl e, w1)
                 | (Returns should_execute, w1) \<Rightarrow>
                     if \<not> should_execute then
                       process_tool_calls cfg dev cb bs
                         (tool_results @ [\<lparr>tool_use_id = tool_id,
                                           body = TextBody ''Action skipped by user'',
                                           is_error = False\<rparr>]) w1
                     else
                       (case execute cfg dev action action_params (trace w1) of
                          (Inl e, tr) \<Rightarrow> (Inl e, w1\<lparr>trace := tr\<rparr>)
                        | (Inr r, tr) \<Rightarrow>
                            process_tool_calls cfg dev cb bs
                              (tool_results @ [create_tool_result tool_id r])
                              (w1\<lparr>trace := tr\<rparr>)))))"

text \<open>
  The model transport: the request with the given number (from 0) and conversation gets a
  response, or the call raises an \<open>Exception\<close> with the given text.
\<close>

type_synonym api = "nat \<Rightarrow> message list \<Rightarrow> string + response"

text \<open>Of the lines that \<open>run\<close> prints, the model keeps those that tell why the loop ended.\<close>

datatype status =
    ApiError string
  | TaskCompleted
  | UserQuit
  | NoMoreToolCalls
  | MaxIterationsReached int

record run_state =
  messages :: "message list"
  iterations :: int
  final_response :: string
  world :: world
  requests :: nat
  printed :: "status list"

text \<open>The loop over the blocks that keeps the text of the last text block.\<close>

fun last_text :: "block list \<Rightarrow> string \<Rightarrow> string" where
  "last_text [] final = final"
| "last_text (TextBlock t # bs) final = last_text bs t"
| "last_text (ToolUseBlock _ _ _ # bs) final = last_text bs final"

text \<open>The code after the loop.\<close>

definition finish :: "config \<Rightarrow> run_state \<Rightarrow> (exn + string) \<times> run_state" where
  "finish cfg s =
     (Inr (final_response s),
      if iterations s \<ge> max_iterations cfg
      then s\<lparr>printed := printed s @ [MaxIterationsReached (max_iterations cfg)]\<rparr>
      else s)"

text \<open>How the body of the \<open>while\<close> loop ends: it reaches its end, or leaves by
  \<open>break\<close>, by \<open>return\<close>, or by an exception that nothing catches.\<close>

datatype flow = Next | Break | Return string | Raise exn

text \<open>The body of the \<open>while\<close> loop of \<open>run\<close>.\<close>

definition iteration ::
  "config \<Rightarrow> device \<Rightarrow> gate option \<Rightarrow> api \<Rightarrow> run_state \<Rightarrow> flow \<times> run_state" where
  "iteration cfg dev cb api s =
     (case api (requests s) (messages s) of
        Inl e \<Rightarrow>
          (Return (''API Error: '' @ e),
           s\<lparr>iterations := iterations s + 1, requests := requests s + 1,
             printed := printed s @ [ApiError e]\<rparr>)
      | Inr response \<Rightarrow>
          (let s1 = s\<lparr>iterations := iterations s + 1, requests := requests s + 1,
                      messages := messages s @ [AssistantTurn (content response)],
                      final_response := last_text (content response) (final_response s)\<rparr>
           in if stop_reason response = ''end_turn'' then
                (Break, s1\<lparr>printed := printed s1 @ [TaskCompleted]\<rparr>)
              else
                (case process_tool_calls cfg dev cb (content response) [] (world s1) of
                   (Inl e, w) \<Rightarrow>
                     if e = StopIteration then
                       (Break, s1\<lparr>world := w, printed := printed s1 @ [UserQuit]\<rparr>)
                     else (Raise e, s1\<lparr>world := w\<rparr>)
                 | (Inr tool_results, w) \<Rightarrow>
                     if tool_results = [] then
                       (Break, s1\<lparr>world := w, printed := printed s1 @ [NoMoreToolCalls]\<rparr>)
                     else
                       (Next, s1\<lparr>world := w,
                                 messages := messages s1 @ [UserResults tool_results]\<rparr>))))"

text \<open>
  The \<open>while\<close> loop of \<open>run\<close> and the code after it. The result is what \<open>run\<close> returns,
  or the exception that leaves it, with the state of the agent at that moment.
\<close>

function run_loop ::
  "config \<Rightarrow> device \<Rightarrow> gate option \<Rightarrow> api \<Rightarrow> run_state \<Rightarrow> (exn + string) \<times> run_state" where
  "run_loop cfg dev cb api s =
     (if iterations s < max_iterations cfg then
        (case iteration cfg dev cb api s of
           (Next, s') \<Rightarrow> run_loop cfg dev cb api s'
         | (Break, s') \<Rightarrow> finish cfg s'
         | (Return v, s') \<Rightarrow> (Inr v, s')
         | (Raise e, s') \<Rightarrow> (Inl e, s'))
      else finish cfg s)"
  by pat_completeness auto
termination
  apply (relation "measure (\<lambda>(cfg, dev, cb, api, s). nat (max_iterations cfg - iterations s))")
   apply simp
  apply (auto simp: iteration_def Let_def split: sum.splits prod.splits if_splits)
  done

declare run_loop.simps [simp del]

definition run ::
  "config \<Rightarrow> device \<Rightarrow> gate option \<Rightarrow> api \<Rightarrow> string \<Rightarrow> world \<Rightarrow> (exn + string) \<times> run_state" where
  "run cfg dev cb api task w =
     run_loop cfg dev cb api
       \<lparr>messages = [UserTask task], iterations = 0, final_response = '''', world = w,
        requests = 0, printed = []\<rparr>"

section \<open>Vocabulary of the statements\<close>

text \<open>
  A computation reports the faults of the device: the calls it makes extend the list of
  calls, and when one of them raises, the computation raises that fault at once.
\<close>

definition reports_faults :: "device \<Rightarrow> 'a act \<Rightarrow> bool" where
  "reports_faults dev m =
     (\<forall>tr. \<exists>r cs. m tr = (r, tr @ cs) \<and>
        (\<forall>msg. first_fault dev tr cs = Some msg \<longrightarrow> r = Inl (DeviceError msg)) \<and>
        (first_fault dev tr cs = None \<or> (\<exists>msg. r = Inl (DeviceError msg))))"

text \<open>The identifiers of the \<open>tool_use\<close> blocks of a turn, in order.\<close>

fun tool_use_ids :: "block list \<Rightarrow> string list" where
  "tool_use_ids [] = []"
| "tool_use_ids (TextBlock _ # bs) = tool_use_ids bs"
| "tool_use_ids (ToolUseBlock tool_id _ _ # bs) = tool_id # tool_use_ids bs"

text \<open>
  Every turn of tool results comes right after a turn of the assistant, and carries the
  identifiers of that turn's \<open>tool_use\<close> blocks, each once and in the same order.
\<close>

fun turns_matched :: "message list \<Rightarrow> bool" where
  "turns_matched (AssistantTurn bs # UserResults rs # ms) =
     (map tool_use_id rs = tool_use_ids bs \<and> turns_matched ms)"
| "turns_matched (UserResults rs # ms) = False"
| "turns_matched (m # ms) = turns_matched ms"
| "turns_matched [] = True"

text \<open>All tool results of a conversation.\<close>

fun results_of :: "message list \<Rightarrow> tool_result list" where
  "results_of [] = []"
| "results_of (UserResults rs # ms) = rs @ results_of ms"
| "results_of (m # ms) = results_of ms"

text \<open>
  A block whose processing reaches the confirmation: a call of the tool \<open>computer\<close>
  whose action can be looked up and whose description \<open>describe_action\<close> computes.
  Blocks of text and calls of other tools are passed over before that.
\<close>

fun describable :: "block \<Rightarrow> bool" where
  "describable (TextBlock _) = True"
| "describable (ToolUseBlock tool_id tool_name tool_input) =
     (tool_name = ''computer'' \<longrightarrow>
        (case get_default tool_input ''action'' (PStr '''') of
           PList _ \<Rightarrow> False
         | action \<Rightarrow>
             (case describe_action action (tool_input |` (- {''action''})) of
                Inl _ \<Rightarrow> False
              | Inr _ \<Rightarrow> True)))"

text \<open>The number of turns of the assistant in a conversation, and of failures of the
  transport among the printed lines.\<close>

fun assistant_turns :: "message list \<Rightarrow> nat" where
  "assistant_turns [] = 0"
| "assistant_turns (AssistantTurn _ # ms) = Suc (assistant_turns ms)"
| "assistant_turns (m # ms) = assistant_turns ms"

fun api_errors :: "status list \<Rightarrow> nat" where
  "api_errors [] = 0"
| "api_errors (ApiError _ # ls) = Suc (api_errors ls)"
| "api_errors (l # ls) = api_errors ls"

text \<open>
  The turns of the assistant are the answers of the transport: of the turns \<open>rest\<close> that
  come after the conversation \<open>before\<close>, each turn of the assistant is the content of the
  response to the request with the next number, counted from \<open>n\<close>, made with the whole
  conversation before that turn.
\<close>

fun served :: "api \<Rightarrow> message list \<Rightarrow> nat \<Rightarrow> message list \<Rightarrow> bool" where
  "served api before n [] = True"
| "served api before n (AssistantTurn bs # rest) =
     ((case api n before of Inl _ \<Rightarrow> False | Inr r \<Rightarrow> content r = bs) \<and>
      served api (before @ [AssistantTurn bs]) (Suc n) rest)"
| "served api before n (m # rest) = served api (before @ [m]) n rest"

text \<open>The result that stands for a skipped action.\<close>

definition skipped :: "string \<Rightarrow> tool_result" where
  "skipped tool_id =
     \<lparr>tool_use_id = tool_id, body = TextBody ''Action skipped by user'', is_error = False\<rparr>"

section \<open>Fixtures\<close>

text \<open>A display of 100 by 50 pixels with a budget of 3, and a device that never fails.\<close>

definition small_config :: config where
  "small_config = \<lparr>display_width = 100, display_height = 50, max_iterations = 3\<rparr>"

definition quiet_device :: device where
  "quiet_device = \<lparr>fault = (\<lambda>_ _. None), capture = (\<lambda>_. Captured ''AAAA'')\<rparr>"

text \<open>A device on which every click fails.\<close>

definition stuck_device :: device where
  "stuck_device =
     \<lparr>fault = (\<lambda>_ c. case c of Click _ _ _ \<Rightarrow> Some ''button stuck'' | _ \<Rightarrow> None),
      capture = (\<lambda>_. Captured ''AAAA'')\<rparr>"

text \<open>A turn that asks for three clicks, and a transport that always answers with it.\<close>

definition click_at :: "string \<Rightarrow> int \<Rightarrow> int \<Rightarrow> block" where
  "click_at tool_id x y =
     ToolUseBlock tool_id ''computer''
       [''action'' \<mapsto> PStr ''left_click'', ''coordinate'' \<mapsto> PList [x, y]]"

definition three_clicks :: "block list" where
  "three_clicks = [click_at ''a'' 1 1, click_at ''b'' 2 2, click_at ''c'' 3 3]"

definition clicking_api :: api where
  "clicking_api n ms = Inr \<lparr>content = three_clicks, stop_reason = ''tool_use''\<rparr>"

text \<open>A user who confirms the first action and quits at the second; one who skips everything;
  one who confirms everything.\<close>

definition quit_at_second :: gate where
  "quit_at_second before d = (if length before = 1 then Raises StopIteration else Returns True)"

definition always_skip :: gate where
  "always_skip before d = Returns False"

definition always_yes :: gate where
  "always_yes before d = Returns True"

text \<open>A transport that asks for a click whose coordinate is the empty list.\<close>

definition malformed_click :: block where
  "malformed_click =
     ToolUseBlock ''m'' ''computer''
       [''action'' \<mapsto> PStr ''left_click'', ''coordinate'' \<mapsto> PList []]"

definition malformed_api :: api where
  "malformed_api n ms = Inr \<lparr>content = [malformed_click], stop_reason = ''tool_use''\<rparr>"

definition fresh_world :: world where
  "fresh_world = \<lparr>trace = [], asked = []\<rparr>"

section \<open>The dispatcher\<close>

lemma first_fault_append:
  "first_fault dev tr (cs @ ds) =
     (case first_fault dev tr cs of Some m \<Rightarrow> Some m | None \<Rightarrow> first_fault dev (tr @ cs) ds)"
  by (induction cs arbitrary: tr) (auto split: option.splits)

lemma rf_ret: "reports_faults dev (ret x)"
  unfolding reports_faults_def ret_def by (intro allI exI[of _ "[]"] exI) simp

lemma rf_lift: "reports_faults dev (lift r)"
  unfolding reports_faults_def lift_def by (intro allI exI[of _ "[]"] exI) simp

lemma rf_invoke: "c \<noteq> Screencapture \<Longrightarrow> reports_faults dev (invoke dev c)"
  unfolding reports_faults_def invoke_def
  apply (intro allI)
  subgoal for tr
    apply (cases "fault dev tr c")
     apply (rule exI[of _ "Inr ()"], rule exI[of _ "[c]"])
     apply (cases c; simp add: raised_def)
    subgoal for m
     apply (rule exI[of _ "Inl (DeviceError m)"], rule exI[of _ "[c]"])
      apply (cases c; simp add: raised_def)
      done
    done
  done

lemma rf_seq:
  assumes "reports_faults dev m" "\<And>x. reports_faults dev (f x)"
  shows "reports_faults dev (seq m f)"
  unfolding reports_faults_def
proof
  fix tr
  from assms(1) obtain r cs where m: "m tr = (r, tr @ cs)"
    and f1: "\<forall>msg. first_fault dev tr cs = Some msg \<longrightarrow> r = Inl (DeviceError msg)"
    and f2: "first_fault dev tr cs = None \<or> (\<exists>msg. r = Inl (DeviceError msg))"
    unfolding reports_faults_def by blast
  show "\<exists>r cs. seq m f tr = (r, tr @ cs) \<and>
       (\<forall>msg. first_fault dev tr cs = Some msg \<longrightarrow> r = Inl (DeviceError msg)) \<and>
       (first_fault dev tr cs = None \<or> (\<exists>msg. r = Inl (DeviceError msg)))"
  proof (cases r)
    case (Inl e)
    have "seq m f tr = (Inl e, tr @ cs)" using m Inl by (simp add: seq_def)
    moreover have "\<forall>msg. first_fault dev tr cs = Some msg \<longrightarrow> e = DeviceError msg"
      using f1 Inl by simp
    moreover have "first_fault dev tr cs = None \<or> (\<exists>msg. e = DeviceError msg)"
      using f2 Inl by simp
    ultimately show ?thesis by blast
  next
    case (Inr x)
    with f1 f2 have none: "first_fault dev tr cs = None" by auto
    from assms(2)[of x] obtain r2 ds where g: "f x (tr @ cs) = (r2, (tr @ cs) @ ds)"
      and g1: "\<forall>msg. first_fault dev (tr @ cs) ds = Some msg \<longrightarrow> r2 = Inl (DeviceError msg)"
      and g2: "first_fault dev (tr @ cs) ds = None \<or> (\<exists>msg. r2 = Inl (DeviceError msg))"
      unfolding reports_faults_def by blast
    have "seq m f tr = (r2, tr @ (cs @ ds))" using m Inr g by (simp add: seq_def)
    moreover have "first_fault dev tr (cs @ ds) = first_fault dev (tr @ cs) ds"
      using none by (simp add: first_fault_append)
    ultimately show ?thesis using g1 g2 by metis
  qed
qed

lemma rf_if: "reports_faults dev a \<Longrightarrow> reports_faults dev b \<Longrightarrow> reports_faults dev (if c then a else b)"
  by simp

lemma rf_prod: "(\<And>x y. reports_faults dev (f x y)) \<Longrightarrow> reports_faults dev (case z of (x, y) \<Rightarrow> f x y)"
  by (cases z) simp

lemma rf_option: "reports_faults dev a \<Longrightarrow> (\<And>x. reports_faults dev (f x)) \<Longrightarrow> reports_faults dev (case z of None \<Rightarrow> a | Some x \<Rightarrow> f x)"
  by (cases z) simp_all

lemmas rf_intros = rf_ret rf_lift rf_invoke rf_seq rf_if rf_prod rf_option


lemma rf_at_coordinate:
  "(\<And>x y. call x y \<noteq> Screencapture) \<Longrightarrow> reports_faults dev (at_coordinate cfg dev name call verb p)"
  unfolding at_coordinate_def by (intro rf_intros) 

lemma rf_screenshot: "reports_faults dev (screenshot cfg dev p)"
  unfolding reports_faults_def
proof
  fix tr
  show "\<exists>r cs. screenshot cfg dev p tr = (r, tr @ cs) \<and>
       (\<forall>msg. first_fault dev tr cs = Some msg \<longrightarrow> r = Inl (DeviceError msg)) \<and>
       (first_fault dev tr cs = None \<or> (\<exists>msg. r = Inl (DeviceError msg)))"
    by (cases "capture dev tr")
       (simp_all add: screenshot_def raised_def exI[of _ "[Screencapture]"])
qed

lemma rf_drag: "reports_faults dev (left_click_drag cfg dev p)"
  unfolding left_click_drag_def by (intro rf_intros) simp_all

lemma rf_type: "reports_faults dev (type_text cfg dev p)"
  unfolding type_text_def by (intro rf_intros) simp_all

lemma rf_key: "reports_faults dev (key_press cfg dev p)"
  unfolding key_press_def Let_def
  by (cases "arg p ''key''") (simp_all add: rf_intros)

lemma rf_scroll: "reports_faults dev (scroll cfg dev p)"
  unfolding scroll_def Let_def by (intro rf_intros) simp_all

lemma rf_wait: "reports_faults dev (wait cfg dev p)"
  unfolding wait_def by (intro rf_intros) simp_all

lemma rf_handlers:
  assumes "map_of (action_handlers cfg dev) name = Some h"
  shows "reports_faults dev (h p)"
proof -
  have "h \<in> snd ` set (action_handlers cfg dev)"
    using assms by (metis map_of_SomeD image_eqI snd_conv)
  then show ?thesis
    unfolding action_handlers_def
    by (auto simp: left_click_def right_click_def middle_click_def double_click_def
       triple_click_def mouse_move_def rf_screenshot rf_drag rf_type rf_key rf_scroll rf_wait
       rf_at_coordinate)
qed

text \<open>
  C4. For every action name and every parameter set, \<open>execute\<close> returns an outcome
  and never lets an exception escape; when a call to the device raises with message
  \<open>m\<close>, the outcome is the error \<open>Action '<name>' failed: m\<close>.
\<close>

theorem execute_catches_device_faults:
  "\<exists>out cs. execute cfg dev (PStr name) p tr = (Inr out, tr @ cs) \<and>
     (\<forall>m. first_fault dev tr cs = Some m \<longrightarrow>
        out = Error (''Action '' @ sq # name @ sq # '' failed: '' @ m))"
proof (cases "map_of (action_handlers cfg dev) name")
  case None
  then have "execute cfg dev (PStr name) p tr = (Inr (Error (''Unknown action: '' @ name)), tr @ [])"
    by (simp add: execute_def)
  then show ?thesis by (metis first_fault.simps(1) option.distinct(1))
next
  case (Some h)
  from rf_handlers[OF Some, of p] obtain r cs where h: "h p tr = (r, tr @ cs)"
    and f1: "\<forall>msg. first_fault dev tr cs = Some msg \<longrightarrow> r = Inl (DeviceError msg)"
    unfolding reports_faults_def by blast
  show ?thesis
  proof (cases r)
    case (Inl e)
    have "execute cfg dev (PStr name) p tr =
            (Inr (Error (''Action '' @ sq # name @ sq # '' failed: '' @ exn_str e)), tr @ cs)"
      using Some h Inl by (simp add: execute_def)
    moreover have "\<forall>m. first_fault dev tr cs = Some m \<longrightarrow> exn_str e = m"
      using f1 Inl by auto
    ultimately show ?thesis by blast
  next
    case (Inr out)
    have "execute cfg dev (PStr name) p tr = (Inr out, tr @ cs)"
      using Some h Inr by (simp add: execute_def)
    moreover have "first_fault dev tr cs = None"
      using f1 Inr by (cases "first_fault dev tr cs") auto
    ultimately show ?thesis by auto
  qed
qed


lemmas handler_defs =
  execute_def action_handlers_def left_click_def right_click_def middle_click_def
  double_click_def triple_click_def mouse_move_def at_coordinate_def left_click_drag_def
  scroll_def arg_def unpack2_def seq_def lift_def ret_def invoke_def
  validate_coordinates_def in_bounds_def py_sub_def

theorem execute_catches_device_faults_witness:
  "execute small_config stuck_device (PStr ''left_click'') [''coordinate'' \<mapsto> PList [5, 7]] []
     = (Inr (Error ''Action 'left_click' failed: button stuck''),
        [Click (PInt 5) (PInt 7) ''left''])
   \<and> first_fault stuck_device [] [Click (PInt 5) (PInt 7) ''left''] = Some ''button stuck''"
proof -
  let ?p = "[''coordinate'' \<mapsto> PList [5, 7]]"
  have tr: "snd (execute small_config stuck_device (PStr ''left_click'') ?p [])
              = [Click (PInt 5) (PInt 7) ''left'']"
    by (simp add: handler_defs small_config_def stuck_device_def)
  have ff: "first_fault stuck_device [] [Click (PInt 5) (PInt 7) ''left''] = Some ''button stuck''"
    by (simp add: raised_def stuck_device_def)
  from execute_catches_device_faults [of small_config stuck_device "''left_click''" ?p "[]"]
  obtain out cs where e: "execute small_config stuck_device (PStr ''left_click'') ?p [] = (Inr out, [] @ cs)"
    and f: "\<forall>m. first_fault stuck_device [] cs = Some m \<longrightarrow>
               out = Error (''Action '' @ sq # ''left_click'' @ sq # '' failed: '' @ m)"
    by blast
  from e tr have cs: "cs = [Click (PInt 5) (PInt 7) ''left'']" by simp
  with f ff have "out = Error ''Action 'left_click' failed: button stuck''" by simp
  with e cs ff show ?thesis by simp
qed

text \<open>
  C7. For every action name outside the twelve names of the table, \<open>execute\<close> returns
  the error \<open>Unknown action: <name>\<close>, raises nothing and makes no device call.
\<close>

theorem execute_unknown_action:
  assumes "name \<notin> {''screenshot'', ''left_click'', ''right_click'', ''middle_click'',
                    ''double_click'', ''triple_click'', ''left_click_drag'', ''mouse_move'',
                    ''type'', ''key'', ''scroll'', ''wait''}"
  shows "execute cfg dev (PStr name) p tr = (Inr (Error (''Unknown action: '' @ name)), tr)"
  using assms by (simp add: execute_def action_handlers_def)

theorem execute_unknown_action_witness:
  "execute small_config quiet_device (PStr ''frobnicate'') Map.empty []
     = (Inr (Error ''Unknown action: frobnicate''), [])"
  using execute_unknown_action [of "''frobnicate''" small_config quiet_device Map.empty "[]"]
  by simp

text \<open>
  C9. A scroll with an in-bounds coordinate and a direction that is none of up, down, left
  and right returns the error \<open>Invalid scroll direction: <direction>\<close>, after the
  mouse has been moved to the coordinate.
\<close>

theorem scroll_invalid_direction:
  assumes "p ''coordinate'' = Some (PList [x, y])"
    and "0 \<le> x" "x < display_width cfg" "0 \<le> y" "y < display_height cfg"
    and "p ''scroll_direction'' = Some d"
    and "d \<notin> {PNone, PStr ''up'', PStr ''down'', PStr ''left'', PStr ''right''}"
    and "fault dev tr (MoveTo (PInt x) (PInt y)) = None"
  shows "execute cfg dev (PStr ''scroll'') p tr
           = (Inr (Error (''Invalid scroll direction: '' @ py_str d)),
              tr @ [MoveTo (PInt x) (PInt y)])"
  using assms by (simp add: handler_defs)

theorem scroll_invalid_direction_witness:
  "execute small_config quiet_device (PStr ''scroll'')
     [''coordinate'' \<mapsto> PList [10, 20], ''scroll_direction'' \<mapsto> PStr ''sideways''] []
   = (Inr (Error ''Invalid scroll direction: sideways''), [MoveTo (PInt 10) (PInt 20)])"
  using scroll_invalid_direction [of "[''coordinate'' \<mapsto> PList [10, 20], ''scroll_direction'' \<mapsto> PStr ''sideways'']"
      10 20 small_config "PStr ''sideways''" quiet_device "[]"]
  by (simp add: small_config_def quiet_device_def)


text \<open>
  C3, as the code has it. A coordinate pair outside the display is rejected before any
  device call, with an error that names the axis and the valid range: for the five clicks
  and \<open>mouse_move\<close>; for \<open>scroll\<close> when \<open>scroll_direction\<close> is given, a
  scroll without it being refused for the missing direction; for \<open>left_click_drag\<close>
  when both pairs are given, the start pair being checked first.
\<close>

theorem out_of_bounds_rejected:
  assumes out: "\<not> (0 \<le> x \<and> x < display_width cfg) \<or> \<not> (0 \<le> y \<and> y < display_height cfg)"
  shows "let msg =
           (if \<not> (0 \<le> x \<and> x < display_width cfg)
            then ''X coordinate '' @ str_int x @ '' is outside display bounds (0-''
                   @ str_int (display_width cfg - 1) @ '')''
            else ''Y coordinate '' @ str_int y @ '' is outside display bounds (0-''
                   @ str_int (display_height cfg - 1) @ '')'')
         in
         (\<forall>name p tr.
            name \<in> {''left_click'', ''right_click'', ''middle_click'', ''double_click'',
                     ''triple_click'', ''mouse_move''} \<and>
            p ''coordinate'' = Some (PList [x, y]) \<longrightarrow>
            execute cfg dev (PStr name) p tr = (Inr (Error msg), tr)) \<and>
         (\<forall>p tr.
            p ''coordinate'' = Some (PList [x, y]) \<longrightarrow>
            execute cfg dev (PStr ''scroll'') p tr =
              (Inr (Error (if arg p ''scroll_direction'' = PNone
                           then ''scroll_direction is required for scroll'' else msg)), tr)) \<and>
         (\<forall>p tr a b.
            p ''start_coordinate'' = Some (PList [x, y]) \<and>
            p ''coordinate'' = Some (PList [a, b]) \<longrightarrow>
            execute cfg dev (PStr ''left_click_drag'') p tr = (Inr (Error (''Start '' @ msg)), tr)) \<and>
         (\<forall>p tr a b.
            p ''start_coordinate'' = Some (PList [a, b]) \<and>
            0 \<le> a \<and> a < display_width cfg \<and> 0 \<le> b \<and> b < display_height cfg \<and>
            p ''coordinate'' = Some (PList [x, y]) \<longrightarrow>
            execute cfg dev (PStr ''left_click_drag'') p tr = (Inr (Error (''End '' @ msg)), tr))"
proof -
  define msg where "msg =
           (if \<not> (0 \<le> x \<and> x < display_width cfg)
            then ''X coordinate '' @ str_int x @ '' is outside display bounds (0-''
                   @ str_int (display_width cfg - 1) @ '')''
            else ''Y coordinate '' @ str_int y @ '' is outside display bounds (0-''
                   @ str_int (display_height cfg - 1) @ '')'')"
  have v: "validate_coordinates cfg (PInt x) (PInt y) = Inr (Some msg)"
    using out unfolding msg_def by (auto simp: validate_coordinates_def in_bounds_def)
  have v2: "validate_coordinates cfg (PInt a) (PInt b) = Inr None"
    if "0 \<le> a" "a < display_width cfg" "0 \<le> b" "b < display_height cfg" for a b
    using that by (simp add: validate_coordinates_def in_bounds_def)
  note defs = execute_def action_handlers_def left_click_def right_click_def middle_click_def
    double_click_def triple_click_def mouse_move_def at_coordinate_def left_click_drag_def
    scroll_def arg_def unpack2_def seq_def lift_def ret_def Let_def
  have clicks: "execute cfg dev (PStr name) p tr = (Inr (Error msg), tr)"
    if "name \<in> {''left_click'', ''right_click'', ''middle_click'', ''double_click'',
                     ''triple_click'', ''mouse_move''} \<and> p ''coordinate'' = Some (PList [x, y])"
    for name p tr
    using that by (elim conjE insertE emptyE) (simp_all add: defs v)
  have scr: "execute cfg dev (PStr ''scroll'') p tr =
              (Inr (Error (if arg p ''scroll_direction'' = PNone
                           then ''scroll_direction is required for scroll'' else msg)), tr)"
    if "p ''coordinate'' = Some (PList [x, y])" for p tr
    using that by (simp add: defs v)
  have st: "execute cfg dev (PStr ''left_click_drag'') p tr = (Inr (Error (''Start '' @ msg)), tr)"
    if "p ''start_coordinate'' = Some (PList [x, y]) \<and> p ''coordinate'' = Some (PList [a, b])"
    for p tr a b
    using that by (simp add: defs v)
  have en: "execute cfg dev (PStr ''left_click_drag'') p tr = (Inr (Error (''End '' @ msg)), tr)"
    if "p ''start_coordinate'' = Some (PList [a, b]) \<and>
        0 \<le> a \<and> a < display_width cfg \<and> 0 \<le> b \<and> b < display_height cfg \<and>
        p ''coordinate'' = Some (PList [x, y])"
    for p tr a b
    using that by (simp add: defs v v2)
  show ?thesis
    unfolding Let_def msg_def [symmetric]
    by (intro conjI allI impI) (fact clicks scr st en)+
qed

theorem out_of_bounds_rejected_witness:
  "execute small_config quiet_device (PStr ''left_click'') [''coordinate'' \<mapsto> PList [100, 0]] []
     = (Inr (Error ''X coordinate 100 is outside display bounds (0-99)''), [])
   \<and> execute small_config quiet_device (PStr ''mouse_move'') [''coordinate'' \<mapsto> PList [-1, 0]] []
     = (Inr (Error ''X coordinate -1 is outside display bounds (0-99)''), [])
   \<and> execute small_config quiet_device (PStr ''left_click_drag'')
        [''start_coordinate'' \<mapsto> PList [0, 0], ''coordinate'' \<mapsto> PList [99, 50]] []
     = (Inr (Error ''End Y coordinate 50 is outside display bounds (0-49)''), [])"
proof -
  have s: "str_int 100 = ''100''" "str_int 99 = ''99''" "str_int (-1) = ''-1''"
     "str_int 50 = ''50''" "str_int 49 = ''49''"
    by code_simp+
  have a: "execute small_config quiet_device (PStr ''left_click'') [''coordinate'' \<mapsto> PList [100, 0]] []
     = (Inr (Error ''X coordinate 100 is outside display bounds (0-99)''), [])"
    using out_of_bounds_rejected [of 100 small_config 0 quiet_device]
    by (simp add: Let_def small_config_def s)
  have b: "execute small_config quiet_device (PStr ''mouse_move'') [''coordinate'' \<mapsto> PList [-1, 0]] []
     = (Inr (Error ''X coordinate -1 is outside display bounds (0-99)''), [])"
    using out_of_bounds_rejected [of "-1" small_config 0 quiet_device]
    by (simp add: Let_def small_config_def s)
  have c: "execute small_config quiet_device (PStr ''left_click_drag'')
        [''start_coordinate'' \<mapsto> PList [0, 0], ''coordinate'' \<mapsto> PList [99, 50]] []
     = (Inr (Error ''End Y coordinate 50 is outside display bounds (0-49)''), [])"
    using out_of_bounds_rejected [of 99 small_config 50 quiet_device]
    by (simp add: Let_def small_config_def s)
  from a b c show ?thesis by simp
qed

text \<open>
  A scroll outside the display without a direction is refused for the missing direction:
  its error names neither an axis nor a range.
\<close>

theorem out_of_bounds_scroll_counterexample:
  "execute small_config quiet_device (PStr ''scroll'') [''coordinate'' \<mapsto> PList [-1, 0]] []
     = (Inr (Error ''scroll_direction is required for scroll''), [])
   \<and> ''scroll_direction is required for scroll''
       \<noteq> ''X coordinate -1 is outside display bounds (0-99)''"
  by (simp add: handler_defs)

section \<open>Keys\<close>

lemma replace_ctrl_unfold:
  "replace ''ctrl'' ''command'' s =
     (if s = [] then []
      else if take 4 s = ''ctrl'' then ''command'' @ replace ''ctrl'' ''command'' (drop 4 s)
      else hd s # replace ''ctrl'' ''command'' (tl s))"
  by (subst replace.simps) (simp add: eval_nat_numeral)

lemma replace_ctrl_head:
  assumes "replace ''ctrl'' ''command'' s = x # r" "x \<noteq> CHR ''c''"
  shows "s \<noteq> [] \<and> hd s = x \<and> r = replace ''ctrl'' ''command'' (tl s)"
  using assms by (subst (asm) replace_ctrl_unfold) (auto split: if_splits)

lemma replace_ctrl_no_prefix:
  assumes "take 4 s \<noteq> ''ctrl''"
  shows "\<not> prefix ''ctrl'' (replace ''ctrl'' ''command'' s)"
proof
  assume "prefix ''ctrl'' (replace ''ctrl'' ''command'' s)"
  then obtain rest where r: "replace ''ctrl'' ''command'' s = ''ctrl'' @ rest"
    by (auto simp: prefix_def)
  have s: "s \<noteq> []" using r by (subst (asm) replace_ctrl_unfold) (auto split: if_splits)
  with assms r have h: "hd s = CHR ''c''"
    and t: "replace ''ctrl'' ''command'' (tl s) = ''trl'' @ rest"
    by (subst (asm) replace_ctrl_unfold; simp)+
  from replace_ctrl_head[of "tl s" "CHR ''t''" "''rl'' @ rest"] t
  have 1: "tl s \<noteq> []" "hd (tl s) = CHR ''t''"
    "replace ''ctrl'' ''command'' (tl (tl s)) = ''rl'' @ rest" by auto
  from replace_ctrl_head[of "tl (tl s)" "CHR ''r''" "''l'' @ rest"] 1
  have 2: "tl (tl s) \<noteq> []" "hd (tl (tl s)) = CHR ''r''"
    "replace ''ctrl'' ''command'' (tl (tl (tl s))) = ''l'' @ rest" by auto
  from replace_ctrl_head[of "tl (tl (tl s))" "CHR ''l''" "rest"] 2
  have 3: "tl (tl (tl s)) \<noteq> []" "hd (tl (tl (tl s))) = CHR ''l''" by auto
  from s h 1 2 3 have "take 4 s = ''ctrl''"
    by (cases s; cases "tl s"; cases "tl (tl s)"; cases "tl (tl (tl s))") auto
  with assms show False by simp
qed

lemma replace_ctrl_no_ctrl: "\<not> sublist ''ctrl'' (replace ''ctrl'' ''command'' s)"
proof (induction "length s" arbitrary: s rule: less_induct)
  case less
  show ?case
  proof (cases "s = []")
    case True
    then show ?thesis by (subst replace_ctrl_unfold) simp
  next
    case False
    show ?thesis
    proof (cases "take 4 s = ''ctrl''")
      case True
      have "length (drop 4 s) < length s" using False by simp
      then have ih: "\<not> sublist ''ctrl'' (replace ''ctrl'' ''command'' (drop 4 s))"
        by (rule less)
      have "replace ''ctrl'' ''command'' s = ''command'' @ replace ''ctrl'' ''command'' (drop 4 s)"
        using True False by (subst replace_ctrl_unfold) simp
      with ih show ?thesis by (simp add: sublist_Cons_right)
    next
      case ne: False
      have "length (tl s) < length s" using False by simp
      then have ih: "\<not> sublist ''ctrl'' (replace ''ctrl'' ''command'' (tl s))"
        by (rule less)
      have eq: "replace ''ctrl'' ''command'' s = hd s # replace ''ctrl'' ''command'' (tl s)"
        using ne False by (subst replace_ctrl_unfold) simp
      from replace_ctrl_no_prefix[OF ne] eq ih show ?thesis
        by (simp add: sublist_Cons_right)
    qed
  qed
qed

lemma split_nonempty: "split sep s \<noteq> []"
  by (induction s) (auto split: list.splits)

lemma split_hd_prefix: "prefix (hd (split sep s)) s"
  by (induction s) (auto split: list.splits)

lemma split_sublist: "k \<in> set (split sep s) \<Longrightarrow> sublist k s"
proof (induction s arbitrary: k)
  case Nil
  then show ?case by simp
next
  case (Cons c cs)
  show ?case
  proof (cases "c = sep")
    case True
    with Cons show ?thesis by (auto simp: sublist_Cons_right)
  next
    case False
    obtain q qs where q: "split sep cs = q # qs"
      using split_nonempty[of sep cs] by (cases "split sep cs") auto
    with split_hd_prefix[of sep cs] have "prefix q cs" by simp
    with Cons False q show ?thesis
      by (auto simp: sublist_Cons_right)
  qed
qed

text \<open>
  C10. A key action lowercases the key string, replaces every \<open>ctrl\<close> by
  \<open>command\<close> and splits at \<open>+\<close>; a single key is pressed alone, several keys
  are pressed together as a combination, and no key that reaches the device contains
  \<open>ctrl\<close>: \<open>ctrl+c\<close> presses command and c.
\<close>

theorem key_press_sends_command:
  assumes "p ''key'' = Some (PStr k)"
  shows "let keys = split CHR ''+'' (replace ''ctrl'' ''command'' (lower k))
         in snd (execute cfg dev (PStr ''key'') p tr)
              = tr @ [if length keys = 1 then Press (hd keys) else Hotkey keys]
            \<and> (\<forall>key \<in> set keys. \<not> sublist ''ctrl'' key)"
proof -
  define keys where "keys = split CHR ''+'' (replace ''ctrl'' ''command'' (lower k))"
  have a: "snd (execute cfg dev (PStr ''key'') p tr)
              = tr @ [if length keys = 1 then Press (hd keys) else Hotkey keys]"
    using assms unfolding keys_def
    by (auto simp: execute_def action_handlers_def key_press_def arg_def seq_def invoke_def
        ret_def Let_def hd_conv_nth split_nonempty split: option.splits prod.splits sum.splits)
  have b: "\<not> sublist ''ctrl'' key" if "key \<in> set keys" for key
  proof
    assume "sublist ''ctrl'' key"
    moreover have "sublist key (replace ''ctrl'' ''command'' (lower k))"
      using that unfolding keys_def by (rule split_sublist)
    ultimately have "sublist ''ctrl'' (replace ''ctrl'' ''command'' (lower k))"
      by (rule sublist_order.order_trans)
    then show False using replace_ctrl_no_ctrl by blast
  qed
  show ?thesis unfolding Let_def keys_def [symmetric] using a b by blast
qed

theorem key_press_sends_command_witness:
  "snd (execute small_config quiet_device (PStr ''key'') [''key'' \<mapsto> PStr ''ctrl+c''] [])
     = [Hotkey [''command'', ''c'']]
   \<and> snd (execute small_config quiet_device (PStr ''key'') [''key'' \<mapsto> PStr ''Ctrl+C''] [])
     = [Hotkey [''command'', ''c'']]
   \<and> snd (execute small_config quiet_device (PStr ''key'') [''key'' \<mapsto> PStr ''Return''] [])
     = [Press ''return'']"
proof -
  have e: "split CHR ''+'' (replace ''ctrl'' ''command'' (lower ''ctrl+c'')) = [''command'', ''c'']"
     "split CHR ''+'' (replace ''ctrl'' ''command'' (lower ''Ctrl+C'')) = [''command'', ''c'']"
     "split CHR ''+'' (replace ''ctrl'' ''command'' (lower ''Return'')) = [''return'']"
    by code_simp+
  show ?thesis
    using key_press_sends_command [of "[''key'' \<mapsto> PStr ''ctrl+c'']" "''ctrl+c''" small_config quiet_device "[]"]
      key_press_sends_command [of "[''key'' \<mapsto> PStr ''Ctrl+C'']" "''Ctrl+C''" small_config quiet_device "[]"]
      key_press_sends_command [of "[''key'' \<mapsto> PStr ''Return'']" "''Return''" small_config quiet_device "[]"]
    by (simp add: Let_def e)
qed

section \<open>The agent\<close>

lemma tool_use_id_create [simp]: "tool_use_id (create_tool_result i r) = i"
  by (cases r) (simp_all add: create_tool_result_def)

lemma process_ids:
  "process_tool_calls cfg dev cb bs acc w = (Inr rs, w') \<Longrightarrow>
     map tool_use_id rs = map tool_use_id acc @ tool_use_ids bs"
  by (induction cfg dev cb bs acc w rule: process_tool_calls.induct)
     (auto simp: Let_def split: if_splits sum.splits prod.splits gate_reply.splits)

lemma process_append:
  "process_tool_calls cfg dev cb (bs @ cs) acc w =
     (case process_tool_calls cfg dev cb bs acc w of
        (Inl e, w') \<Rightarrow> (Inl e, w')
      | (Inr rs, w') \<Rightarrow> process_tool_calls cfg dev cb cs rs w')"
  by (induction cfg dev cb bs acc w rule: process_tool_calls.induct)
     (auto simp: Let_def split: if_splits sum.splits prod.splits gate_reply.splits)

lemma execute_returns:
  assumes "\<forall>xs. action \<noteq> PList xs"
  shows "\<exists>out tr'. execute cfg dev action p tr = (Inr out, tr')"
  using assms by (cases action) (auto simp: execute_def split: option.splits sum.splits prod.splits)

lemma process_total:
  assumes gate: "\<forall>g. cb = Some g \<longrightarrow> (\<forall>h d. \<exists>b. g h d = Returns b)"
    and "\<forall>b \<in> set bs. describable b"
  shows "\<exists>rs w'. process_tool_calls cfg dev cb bs acc w = (Inr rs, w')"
  using assms(2)
proof (induction bs arbitrary: acc w)
  case Nil
  then show ?case by simp
next
  case (Cons b bs)
  then have ih: "\<And>acc w. \<exists>rs w'. process_tool_calls cfg dev cb bs acc w = (Inr rs, w')"
    by simp
  show ?case
  proof (cases b)
    case (TextBlock t)
    with ih show ?thesis by simp
  next
    case (ToolUseBlock i n inp)
    show ?thesis
    proof (cases "n = ''computer''")
      case False
      with ToolUseBlock ih show ?thesis by simp
    next
      case True
      define action where "action = get_default inp ''action'' (PStr '''')"
      from Cons.prems ToolUseBlock True
      have nl: "\<forall>xs. action \<noteq> PList xs"
        and "\<exists>d. describe_action action (inp |` (- {''action''})) = Inr d"
        unfolding action_def by (auto split: pyval.splits sum.splits)
      then obtain d where d: "describe_action action (inp |` (- {''action''})) = Inr d"
        by blast
      obtain b' w1 where c: "consult cb action d w = (Returns b', w1)"
        using gate by (cases cb) (auto simp: consult_def, metis)
      obtain out tr' where e: "execute cfg dev action (inp |` (- {''action''})) (trace w1) = (Inr out, tr')"
        using execute_returns [OF nl] by blast
      show ?thesis
        using ToolUseBlock True d c e ih
        by (cases b') (simp_all add: Let_def action_def [symmetric])
    qed
  qed
qed

lemma skip_step:
  assumes "describe_action (get_default tool_input ''action'' (PStr '''')) (tool_input |` (- {''action''}))
        = Inr d"
    and "get_default tool_input ''action'' (PStr '''') \<noteq> PStr ''screenshot''"
    and "g (asked w) d = Returns False"
  shows "process_tool_calls cfg dev (Some g) (ToolUseBlock tool_id ''computer'' tool_input # bs) acc w
        = process_tool_calls cfg dev (Some g) bs (acc @ [skipped tool_id])
            (w\<lparr>asked := asked w @ [d]\<rparr>)"
  using assms by (simp add: consult_def skipped_def Let_def)

lemma skip_all:
  assumes g: "\<forall>h d. g h d = Returns False"
    and "\<forall>b \<in> set bs. \<forall>i n inp. b = ToolUseBlock i n inp \<longrightarrow>
            n = ''computer'' \<and> get_default inp ''action'' (PStr '''') \<noteq> PStr ''screenshot'' \<and>
            describable b"
  shows "\<exists>w'. process_tool_calls cfg dev (Some g) bs acc w
                 = (Inr (acc @ map skipped (tool_use_ids bs)), w') \<and> trace w' = trace w"
  using assms(2)
proof (induction bs arbitrary: acc w)
  case Nil
  then show ?case by simp
next
  case (Cons b bs)
  then have ih: "\<And>acc w. \<exists>w'. process_tool_calls cfg dev (Some g) bs acc w
                 = (Inr (acc @ map skipped (tool_use_ids bs)), w') \<and> trace w' = trace w"
    by simp
  show ?case
  proof (cases b)
    case (TextBlock t)
    with ih show ?thesis by simp
  next
    case (ToolUseBlock i n inp)
    with Cons.prems have n: "n = ''computer''"
      and a: "get_default inp ''action'' (PStr '''') \<noteq> PStr ''screenshot''"
      and "describable (ToolUseBlock i n inp)" by auto
    then obtain d where d: "describe_action (get_default inp ''action'' (PStr '''')) (inp |` (- {''action''})) = Inr d"
      by (auto split: pyval.splits sum.splits)
    from g have "g (asked w) d = Returns False" by simp
    from skip_step [of inp d g w cfg dev i bs acc, OF d a this]
    have "process_tool_calls cfg dev (Some g) (b # bs) acc w
            = process_tool_calls cfg dev (Some g) bs (acc @ [skipped i]) (w\<lparr>asked := asked w @ [d]\<rparr>)"
      using ToolUseBlock n by simp
    with ih [of "acc @ [skipped i]" "w\<lparr>asked := asked w @ [d]\<rparr>"] ToolUseBlock
    show ?thesis by simp
  qed
qed

lemmas agent_defs =
  three_clicks_def click_at_def consult_def Let_def get_default_def describe_action_def
  describe_at_def pair_text_def py_index_def skipped_def create_tool_result_def

subsection \<open>The loop\<close>

lemma turns_matched_snoc_assistant:
  "turns_matched ms \<Longrightarrow> turns_matched (ms @ [AssistantTurn bs])"
  by (induction ms rule: turns_matched.induct) auto

lemma turns_matched_snoc_pair:
  "turns_matched ms \<Longrightarrow> map tool_use_id rs = tool_use_ids bs \<Longrightarrow>
     turns_matched (ms @ [AssistantTurn bs, UserResults rs])"
  by (induction ms rule: turns_matched.induct) auto

lemma iteration_counts:
  "iteration cfg dev cb api s = (f, s') \<Longrightarrow>
     requests s' = requests s + 1 \<and> iterations s' = iterations s + 1"
  by (auto simp: iteration_def Let_def split: sum.splits prod.splits if_splits)

lemma iteration_messages:
  assumes "iteration cfg dev cb api s = (f, s')"
  shows "messages s' = messages s \<or>
     (\<exists>bs. messages s' = messages s @ [AssistantTurn bs]) \<or>
     (\<exists>bs rs. messages s' = messages s @ [AssistantTurn bs, UserResults rs] \<and>
        map tool_use_id rs = tool_use_ids bs)"
proof (cases "api (requests s) (messages s)")
  case (Inl e)
  with assms show ?thesis by (auto simp: iteration_def)
next
  case (Inr r)
  obtain res w where p: "process_tool_calls cfg dev cb (content r) [] (world s) = (res, w)"
    by force
  show ?thesis
  proof (cases res)
    case (Inl e)
    with assms Inr p show ?thesis
      by (auto simp: iteration_def Let_def split: if_splits)
  next
    case rs: (Inr rs)
    with p have "map tool_use_id rs = tool_use_ids (content r)"
      using process_ids [of cfg dev cb "content r" "[]" "world s" rs w] by simp
    with assms Inr p rs show ?thesis
      by (auto simp: iteration_def Let_def split: if_splits)
  qed
qed

lemma iteration_matched:
  assumes "iteration cfg dev cb api s = (f, s')" "turns_matched (messages s)"
  shows "turns_matched (messages s')"
  using iteration_messages [OF assms(1)] assms(2)
  by (auto simp: turns_matched_snoc_assistant turns_matched_snoc_pair)

lemma iteration_prefix:
  assumes "iteration cfg dev cb api s = (f, s')"
  shows "prefix (messages s) (messages s')"
  using iteration_messages [OF assms] by auto

lemma run_loop_invariant:
  assumes "I s"
    and step: "\<And>s f s'. I s \<Longrightarrow> iterations s < max_iterations cfg \<Longrightarrow>
                 iteration cfg dev cb api s = (f, s') \<Longrightarrow> I s'"
    and fin: "\<And>s. I s \<Longrightarrow> I (snd (finish cfg s))"
  shows "I (snd (run_loop cfg dev cb api s))"
  using assms(1)
proof (induction "nat (max_iterations cfg - iterations s)" arbitrary: s rule: less_induct)
  case less
  show ?case
  proof (cases "iterations s < max_iterations cfg")
    case False
    then show ?thesis using fin [OF less.prems] by (subst run_loop.simps) simp
  next
    case True
    obtain f s' where it: "iteration cfg dev cb api s = (f, s')" by force
    have I': "I s'" using step [OF less.prems True it] .
    show ?thesis
    proof (cases f)
      case Next
      have "iterations s' = iterations s + 1" using iteration_counts [OF it] by simp
      with True have "nat (max_iterations cfg - iterations s') < nat (max_iterations cfg - iterations s)"
        by simp
      from less.hyps [OF this I'] show ?thesis
        using True it Next by (subst run_loop.simps) simp
    next
      case Break
      then show ?thesis using True it fin [OF I'] by (subst run_loop.simps) simp
    next
      case (Return v)
      then show ?thesis using True it I' by (subst run_loop.simps) simp
    next
      case (Raise e)
      then show ?thesis using True it I' by (subst run_loop.simps) simp
    qed
  qed
qed

lemma run_loop_matched:
  "turns_matched (messages s) \<Longrightarrow> turns_matched (messages (snd (run_loop cfg dev cb api s)))"
  by (rule run_loop_invariant [where I = "\<lambda>s. turns_matched (messages s)"])
     (auto simp: finish_def intro: iteration_matched)

lemma run_loop_prefix:
  "prefix (messages s) (messages (snd (run_loop cfg dev cb api s)))"
proof -
  have "prefix (messages s) (messages (snd (run_loop cfg dev cb api s)))"
    by (rule run_loop_invariant [where I = "\<lambda>t. prefix (messages s) (messages t)"])
       (auto simp: finish_def dest: iteration_prefix intro: prefix_order.order_trans)
  then show ?thesis .
qed

lemma run_loop_requests:
  assumes "requests s \<le> nat (iterations s)" "0 \<le> iterations s"
    "iterations s \<le> max 0 (max_iterations cfg)"
  shows "requests (snd (run_loop cfg dev cb api s)) \<le> nat (max_iterations cfg)"
proof -
  have "requests (snd (run_loop cfg dev cb api s)) \<le> nat (iterations (snd (run_loop cfg dev cb api s)))
      \<and> 0 \<le> iterations (snd (run_loop cfg dev cb api s))
      \<and> iterations (snd (run_loop cfg dev cb api s)) \<le> max 0 (max_iterations cfg)"
    by (rule run_loop_invariant [where I = "\<lambda>t. requests t \<le> nat (iterations t) \<and> 0 \<le> iterations t
           \<and> iterations t \<le> max 0 (max_iterations cfg)"])
       (use assms in \<open>auto simp: finish_def dest!: iteration_counts\<close>)
  then show ?thesis by auto
qed

lemma iteration_next:
  assumes "api (requests s) (messages s) = Inr r" "stop_reason r \<noteq> ''end_turn''"
    and "process_tool_calls cfg dev cb (content r) [] (world s) = (Inr rs, w)" "rs \<noteq> []"
  shows "\<exists>s'. iteration cfg dev cb api s = (Next, s') \<and>
           messages s' = messages s @ [AssistantTurn (content r), UserResults rs] \<and>
           printed s' = printed s \<and> world s' = w \<and>
           final_response s' = last_text (content r) (final_response s)"
  using assms by (simp add: iteration_def Let_def)

lemma iteration_quit:
  assumes "api (requests s) (messages s) = Inr r" "stop_reason r \<noteq> ''end_turn''"
    and "process_tool_calls cfg dev cb (content r) [] (world s) = (Inl StopIteration, w)"
  shows "\<exists>s'. iteration cfg dev cb api s = (Break, s') \<and>
           messages s' = messages s @ [AssistantTurn (content r)] \<and>
           printed s' = printed s @ [UserQuit] \<and> world s' = w \<and>
           final_response s' = last_text (content r) (final_response s)"
  using assms by (simp add: iteration_def Let_def)

lemma run_loop_next:
  assumes "iterations s < max_iterations cfg" "iteration cfg dev cb api s = (Next, s')"
  shows "run_loop cfg dev cb api s = run_loop cfg dev cb api s'"
  using assms by (subst run_loop.simps) simp

lemma run_loop_break:
  assumes "iterations s < max_iterations cfg" "iteration cfg dev cb api s = (Break, s')"
  shows "run_loop cfg dev cb api s = finish cfg s'"
  using assms by (subst run_loop.simps) simp

text \<open>
  Every turn of tool results in the conversation carries exactly the identifiers of the
  requests of the assistant's turn right before it, in the same order. When the
  descriptions of the requests of a turn can be computed and the confirmation does not
  raise, the turn right after it is the turn of their results.
\<close>

lemma described_batch_gets_results:
  "turns_matched (messages (snd (run cfg dev cb api task w0)))
   \<and> (\<forall>s r.
        iterations s < max_iterations cfg \<and>
        api (requests s) (messages s) = Inr r \<and>
        stop_reason r \<noteq> ''end_turn'' \<and>
        tool_use_ids (content r) \<noteq> [] \<and>
        (\<forall>b \<in> set (content r). describable b) \<and>
        (\<forall>g. cb = Some g \<longrightarrow> (\<forall>h d. \<exists>b. g h d = Returns b)) \<longrightarrow>
        (\<exists>rs. prefix (messages s @ [AssistantTurn (content r), UserResults rs])
                 (messages (snd (run_loop cfg dev cb api s))) \<and>
              map tool_use_id rs = tool_use_ids (content r)))"
proof (intro conjI allI impI)
  show "turns_matched (messages (snd (run cfg dev cb api task w0)))"
    unfolding run_def by (rule run_loop_matched) simp
next
  fix s :: run_state and r
  assume a: "iterations s < max_iterations cfg \<and>
        api (requests s) (messages s) = Inr r \<and>
        stop_reason r \<noteq> ''end_turn'' \<and>
        tool_use_ids (content r) \<noteq> [] \<and>
        (\<forall>b \<in> set (content r). describable b) \<and>
        (\<forall>g. cb = Some g \<longrightarrow> (\<forall>h d. \<exists>b. g h d = Returns b))"
  then obtain rs w where p: "process_tool_calls cfg dev cb (content r) [] (world s) = (Inr rs, w)"
    using process_total [of cb "content r" cfg dev "[]" "world s"] by blast
  have ids: "map tool_use_id rs = tool_use_ids (content r)"
    using process_ids [OF p] by simp
  with a have ne: "rs \<noteq> []" by auto
  from a have a1: "api (requests s) (messages s) = Inr r"
    and a2: "stop_reason r \<noteq> ''end_turn''" by auto
  from iteration_next [where api = api and s = s, OF a1 a2 p ne]
  obtain s' where it: "iteration cfg dev cb api s = (Next, s')"
    and m: "messages s' = messages s @ [AssistantTurn (content r), UserResults rs]"
    by blast
  have "run_loop cfg dev cb api s = run_loop cfg dev cb api s'"
    using a it by (intro run_loop_next) simp_all
  then have "prefix (messages s @ [AssistantTurn (content r), UserResults rs])
                 (messages (snd (run_loop cfg dev cb api s)))"
    using run_loop_prefix [of s' cfg dev cb api] m by simp
  with ids show "\<exists>rs. prefix (messages s @ [AssistantTurn (content r), UserResults rs])
                 (messages (snd (run_loop cfg dev cb api s))) \<and>
              map tool_use_id rs = tool_use_ids (content r)"
    by blast
qed

lemma describable_three_clicks: "\<forall>b \<in> set three_clicks. describable b"
  by (simp add: agent_defs)

lemma run_loop_exhausts:
  assumes H: "\<forall>n ms. \<exists>r. api n ms = Inr r \<and> stop_reason r \<noteq> ''end_turn'' \<and>
              (\<forall>w. \<exists>rs w'. process_tool_calls cfg dev cb (content r) [] w = (Inr rs, w') \<and> rs \<noteq> [])"
  shows "\<exists>s'. run_loop cfg dev cb api s = (Inr (final_response s'), s') \<and>
           requests s' = requests s + nat (max_iterations cfg - iterations s) \<and>
           printed s' = printed s @ [MaxIterationsReached (max_iterations cfg)]"
proof (induction "nat (max_iterations cfg - iterations s)" arbitrary: s rule: less_induct)
  case less
  show ?case
  proof (cases "iterations s < max_iterations cfg")
    case False
    then show ?thesis by (subst run_loop.simps) (simp add: finish_def)
  next
    case True
    from H obtain r where r: "api (requests s) (messages s) = Inr r"
      and e: "stop_reason r \<noteq> ''end_turn''"
      and p: "\<forall>w. \<exists>rs w'. process_tool_calls cfg dev cb (content r) [] w = (Inr rs, w') \<and> rs \<noteq> []"
      by blast
    from p obtain rs w' where p': "process_tool_calls cfg dev cb (content r) [] (world s) = (Inr rs, w')"
      and ne: "rs \<noteq> []" by blast
    from iteration_next [where api = api and s = s, OF r e p' ne]
    obtain s1 where it: "iteration cfg dev cb api s = (Next, s1)" and pr: "printed s1 = printed s"
      by blast
    from iteration_counts [OF it] have c: "requests s1 = requests s + 1" "iterations s1 = iterations s + 1"
      by simp_all
    with True have "nat (max_iterations cfg - iterations s1) < nat (max_iterations cfg - iterations s)"
      by simp
    from less.hyps [OF this] obtain s' where
      "run_loop cfg dev cb api s1 = (Inr (final_response s'), s')"
      "requests s' = requests s1 + nat (max_iterations cfg - iterations s1)"
      "printed s' = printed s1 @ [MaxIterationsReached (max_iterations cfg)]"
      by blast
    moreover have "requests s1 + nat (max_iterations cfg - iterations s1)
        = requests s + nat (max_iterations cfg - iterations s)"
      using c True by simp
    ultimately show ?thesis
      using run_loop_next [OF True it] pr by simp
  qed
qed

lemma assistant_turns_append:
  "assistant_turns (xs @ ys) = assistant_turns xs + assistant_turns ys"
  by (induction xs rule: assistant_turns.induct) auto

lemma api_errors_append: "api_errors (xs @ ys) = api_errors xs + api_errors ys"
  by (induction xs rule: api_errors.induct) auto

lemma served_append:
  "served api before n (xs @ ys) =
     (served api before n xs \<and> served api (before @ xs) (n + assistant_turns xs) ys)"
  by (induction api before n xs rule: served.induct) auto

lemma run_loop_ends:
  assumes "J s"
    and nx: "\<And>s s'. J s \<Longrightarrow> iterations s < max_iterations cfg \<Longrightarrow>
                 iteration cfg dev cb api s = (Next, s') \<Longrightarrow> J s'"
    and brk: "\<And>s s'. J s \<Longrightarrow> iterations s < max_iterations cfg \<Longrightarrow>
                 iteration cfg dev cb api s = (Break, s') \<Longrightarrow> Q (snd (finish cfg s'))"
    and rtn: "\<And>s s' v. J s \<Longrightarrow> iterations s < max_iterations cfg \<Longrightarrow>
                 iteration cfg dev cb api s = (Return v, s') \<Longrightarrow> Q s'"
    and rse: "\<And>s s' e. J s \<Longrightarrow> iterations s < max_iterations cfg \<Longrightarrow>
                 iteration cfg dev cb api s = (Raise e, s') \<Longrightarrow> Q s'"
    and fin: "\<And>s. J s \<Longrightarrow> \<not> iterations s < max_iterations cfg \<Longrightarrow> Q (snd (finish cfg s))"
  shows "Q (snd (run_loop cfg dev cb api s))"
  using assms(1)
proof (induction "nat (max_iterations cfg - iterations s)" arbitrary: s rule: less_induct)
  case less
  show ?case
  proof (cases "iterations s < max_iterations cfg")
    case False
    then show ?thesis using fin [OF less.prems False] by (subst run_loop.simps) simp
  next
    case True
    obtain f s' where it: "iteration cfg dev cb api s = (f, s')" by force
    show ?thesis
    proof (cases f)
      case Next
      have J': "J s'" using nx [OF less.prems True] it Next by simp
      have "iterations s' = iterations s + 1" using iteration_counts [OF it] by simp
      with True have "nat (max_iterations cfg - iterations s') < nat (max_iterations cfg - iterations s)"
        by simp
      from less.hyps [OF this J'] show ?thesis
        using True it Next by (subst run_loop.simps) simp
    next
      case Break
      then show ?thesis using True it brk [OF less.prems True] by (subst run_loop.simps) simp
    next
      case (Return v)
      then show ?thesis using True it rtn [OF less.prems True] by (subst run_loop.simps) simp
    next
      case (Raise e)
      then show ?thesis using True it rse [OF less.prems True] by (subst run_loop.simps) simp
    qed
  qed
qed

text \<open>What one pass of the loop does to the conversation, the printed lines and the count.\<close>

lemma iteration_served:
  assumes it: "iteration cfg dev cb api s = (f, s')"
    and J: "served api [] 0 (messages s)" "assistant_turns (messages s) = requests s"
      "api_errors (printed s) = 0"
  shows "served api [] 0 (messages s')"
    and "(\<exists>v. f = Return v) \<longrightarrow> assistant_turns (messages s') + 1 = requests s' \<and> api_errors (printed s') = 1"
    and "(\<forall>v. f \<noteq> Return v) \<longrightarrow> assistant_turns (messages s') = requests s' \<and> api_errors (printed s') = 0"
proof -
  show "served api [] 0 (messages s')"
  proof (cases "api (requests s) (messages s)")
    case (Inl e)
    with it J show ?thesis by (auto simp: iteration_def)
  next
    case (Inr r)
    have a: "served api [] 0 (messages s @ [AssistantTurn (content r)])"
      using J Inr by (simp add: served_append)
    have b: "served api [] 0 (messages s @ [AssistantTurn (content r)] @ [UserResults rs])" for rs
      using J Inr by (simp add: served_append)
    from it Inr a b show ?thesis
      by (auto simp: iteration_def Let_def split: if_splits prod.splits sum.splits)
  qed
  show "(\<exists>v. f = Return v) \<longrightarrow> assistant_turns (messages s') + 1 = requests s' \<and> api_errors (printed s') = 1"
    using it J
    by (auto simp: iteration_def Let_def assistant_turns_append api_errors_append
        split: if_splits prod.splits sum.splits)
  show "(\<forall>v. f \<noteq> Return v) \<longrightarrow> assistant_turns (messages s') = requests s' \<and> api_errors (printed s') = 0"
    using it J
    by (auto simp: iteration_def Let_def assistant_turns_append api_errors_append
        split: if_splits prod.splits sum.splits)
qed

lemma run_loop_served:
  assumes "served api [] 0 (messages s)" "assistant_turns (messages s) = requests s"
    "api_errors (printed s) = 0"
  shows "served api [] 0 (messages (snd (run_loop cfg dev cb api s))) \<and>
         assistant_turns (messages (snd (run_loop cfg dev cb api s)))
           + api_errors (printed (snd (run_loop cfg dev cb api s)))
         = requests (snd (run_loop cfg dev cb api s))"
proof (rule run_loop_ends [where
      J = "\<lambda>t. served api [] 0 (messages t) \<and> assistant_turns (messages t) = requests t \<and>
                api_errors (printed t) = 0" and
      Q = "\<lambda>t. served api [] 0 (messages t) \<and>
                assistant_turns (messages t) + api_errors (printed t) = requests t"])
  show "served api [] 0 (messages s) \<and> assistant_turns (messages s) = requests s \<and>
        api_errors (printed s) = 0"
    using assms by simp
next
  fix s s' :: run_state
  assume J: "served api [] 0 (messages s) \<and> assistant_turns (messages s) = requests s \<and>
        api_errors (printed s) = 0"
    and it: "iteration cfg dev cb api s = (Next, s')"
  then show "served api [] 0 (messages s') \<and> assistant_turns (messages s') = requests s' \<and>
        api_errors (printed s') = 0"
    using iteration_served [OF it] by simp
next
  fix s s' :: run_state
  assume J: "served api [] 0 (messages s) \<and> assistant_turns (messages s) = requests s \<and>
        api_errors (printed s) = 0"
    and it: "iteration cfg dev cb api s = (Break, s')"
  then show "served api [] 0 (messages (snd (finish cfg s'))) \<and>
        assistant_turns (messages (snd (finish cfg s'))) + api_errors (printed (snd (finish cfg s')))
          = requests (snd (finish cfg s'))"
    using iteration_served [OF it] by (simp add: finish_def api_errors_append)
next
  fix s s' :: run_state and v
  assume J: "served api [] 0 (messages s) \<and> assistant_turns (messages s) = requests s \<and>
        api_errors (printed s) = 0"
    and it: "iteration cfg dev cb api s = (Return v, s')"
  then show "served api [] 0 (messages s') \<and>
        assistant_turns (messages s') + api_errors (printed s') = requests s'"
    using iteration_served [OF it] by simp
next
  fix s s' :: run_state and e
  assume J: "served api [] 0 (messages s) \<and> assistant_turns (messages s) = requests s \<and>
        api_errors (printed s) = 0"
    and it: "iteration cfg dev cb api s = (Raise e, s')"
  then show "served api [] 0 (messages s') \<and>
        assistant_turns (messages s') + api_errors (printed s') = requests s'"
    using iteration_served [OF it] by simp
next
  fix s :: run_state
  assume "served api [] 0 (messages s) \<and> assistant_turns (messages s) = requests s \<and>
        api_errors (printed s) = 0"
  then show "served api [] 0 (messages (snd (finish cfg s))) \<and>
        assistant_turns (messages (snd (finish cfg s))) + api_errors (printed (snd (finish cfg s)))
          = requests (snd (finish cfg s))"
    by (simp add: finish_def api_errors_append)
qed

text \<open>
  C5. Every turn of the assistant in the conversation is the transport's answer to the
  request with its number, made with the whole conversation before it; the requests issued
  are these answers and the failures of the transport, and there are at most as many as the
  budget allows. When every response asks for tools again and their results are always
  produced, the run issues exactly that many requests, each answered, then ends normally
  and reports that the maximum of iterations is reached: three requests for a budget of
  three.
\<close>

theorem budget_bounds_model_requests:
  "served api [] 0 (messages (snd (run cfg dev cb api task w0)))
   \<and> assistant_turns (messages (snd (run cfg dev cb api task w0)))
       + api_errors (printed (snd (run cfg dev cb api task w0)))
     = requests (snd (run cfg dev cb api task w0))
   \<and> requests (snd (run cfg dev cb api task w0)) \<le> nat (max_iterations cfg)
   \<and> ((\<forall>n ms. \<exists>r. api n ms = Inr r \<and> stop_reason r \<noteq> ''end_turn'' \<and>
          (\<forall>w. \<exists>rs w'. process_tool_calls cfg dev cb (content r) [] w = (Inr rs, w') \<and> rs \<noteq> []))
       \<longrightarrow>
       assistant_turns (messages (snd (run cfg dev cb api task w0))) = nat (max_iterations cfg) \<and>
       requests (snd (run cfg dev cb api task w0)) = nat (max_iterations cfg) \<and>
       printed (snd (run cfg dev cb api task w0)) = [MaxIterationsReached (max_iterations cfg)] \<and>
       (\<exists>t. fst (run cfg dev cb api task w0) = Inr t))"
proof -
  let ?s = "\<lparr>messages = [UserTask task], iterations = 0, final_response = '''',
             world = w0, requests = 0, printed = []\<rparr>"
  have sv: "served api [] 0 (messages (snd (run cfg dev cb api task w0)))
      \<and> assistant_turns (messages (snd (run cfg dev cb api task w0)))
       + api_errors (printed (snd (run cfg dev cb api task w0)))
     = requests (snd (run cfg dev cb api task w0))"
    unfolding run_def by (rule run_loop_served) simp_all
  have le: "requests (snd (run cfg dev cb api task w0)) \<le> nat (max_iterations cfg)"
    unfolding run_def by (rule run_loop_requests) simp_all
  have ex: "assistant_turns (messages (snd (run cfg dev cb api task w0))) = nat (max_iterations cfg) \<and>
       requests (snd (run cfg dev cb api task w0)) = nat (max_iterations cfg) \<and>
       printed (snd (run cfg dev cb api task w0)) = [MaxIterationsReached (max_iterations cfg)] \<and>
       (\<exists>t. fst (run cfg dev cb api task w0) = Inr t)"
    if H: "\<forall>n ms. \<exists>r. api n ms = Inr r \<and> stop_reason r \<noteq> ''end_turn'' \<and>
          (\<forall>w. \<exists>rs w'. process_tool_calls cfg dev cb (content r) [] w = (Inr rs, w') \<and> rs \<noteq> [])"
  proof -
    from run_loop_exhausts [OF H, of ?s]
    obtain s' where r: "run cfg dev cb api task w0 = (Inr (final_response s'), s')"
      and q: "requests s' = nat (max_iterations cfg)"
      and p: "printed s' = [MaxIterationsReached (max_iterations cfg)]"
      unfolding run_def by auto
    from sv r p q have "assistant_turns (messages s') = nat (max_iterations cfg)" by simp
    with r q p show ?thesis by simp
  qed
  from sv le ex show ?thesis by (intro conjI impI) simp_all
qed

theorem budget_bounds_model_requests_witness:
  "assistant_turns (messages (snd (run small_config quiet_device None clicking_api ''go''
                                     fresh_world))) = 3
   \<and> requests (snd (run small_config quiet_device None clicking_api ''go'' fresh_world)) = 3
   \<and> printed (snd (run small_config quiet_device None clicking_api ''go'' fresh_world))
       = [MaxIterationsReached 3]
   \<and> served clicking_api [] 0
        (messages (snd (run small_config quiet_device None clicking_api ''go'' fresh_world)))"
proof -
  have H: "\<forall>n ms. \<exists>r. clicking_api n ms = Inr r \<and> stop_reason r \<noteq> ''end_turn'' \<and>
          (\<forall>w. \<exists>rs w'. process_tool_calls small_config quiet_device None (content r) [] w
                           = (Inr rs, w') \<and> rs \<noteq> [])"
  proof (intro allI)
    fix n ms
    have "\<exists>rs w'. process_tool_calls small_config quiet_device None three_clicks [] w
                           = (Inr rs, w') \<and> rs \<noteq> []" for w
    proof -
      from process_total [of None three_clicks small_config quiet_device "[]" w]
        describable_three_clicks
      obtain rs w' where p: "process_tool_calls small_config quiet_device None three_clicks [] w
                           = (Inr rs, w')" by auto
      from process_ids [OF p] have "map tool_use_id rs = [''a'', ''b'', ''c'']"
        by (simp add: three_clicks_def click_at_def)
      then have "rs \<noteq> []" by auto
      with p show ?thesis by blast
    qed
    then show "\<exists>r. clicking_api n ms = Inr r \<and> stop_reason r \<noteq> ''end_turn'' \<and>
          (\<forall>w. \<exists>rs w'. process_tool_calls small_config quiet_device None (content r) [] w
                           = (Inr rs, w') \<and> rs \<noteq> [])"
      by (simp add: clicking_api_def)
  qed
  note th = budget_bounds_model_requests [of clicking_api small_config quiet_device None "''go''"
      fresh_world]
  from th [THEN conjunct2, THEN conjunct2, THEN conjunct2, THEN mp, OF H] th [THEN conjunct1]
  show ?thesis by (simp add: small_config_def)
qed

subsection \<open>Abort\<close>

lemma results_of_append: "results_of (ms @ ns) = results_of ms @ results_of ns"
  by (induction ms rule: results_of.induct) auto

lemma run_loop_abort:
  assumes "iterations s < max_iterations cfg"
    and "api (requests s) (messages s) = Inr r"
    and "stop_reason r \<noteq> ''end_turn''"
    and "content r = pre @ ToolUseBlock tool_id ''computer'' tool_input # post"
    and "process_tool_calls cfg dev (Some g) pre [] (world s) = (Inr rs, w1)"
    and "describe_action (get_default tool_input ''action'' (PStr ''''))
           (tool_input |` (- {''action''})) = Inr d"
    and "get_default tool_input ''action'' (PStr '''') \<noteq> PStr ''screenshot''"
    and "g (asked w1) d = Raises StopIteration"
  shows "\<exists>s'. run_loop cfg dev (Some g) api s
                 = (Inr (last_text (content r) (final_response s)), s') \<and>
              messages s' = messages s @ [AssistantTurn (content r)] \<and>
              results_of (messages s') = results_of (messages s) \<and>
              world s' = w1\<lparr>asked := asked w1 @ [d]\<rparr> \<and>
              printed s' = printed s @ [UserQuit] @
                (if iterations s + 1 \<ge> max_iterations cfg
                 then [MaxIterationsReached (max_iterations cfg)] else [])"
proof -
  have blk: "process_tool_calls cfg dev (Some g) (ToolUseBlock tool_id ''computer'' tool_input # post) rs w1
               = (Inl StopIteration, w1\<lparr>asked := asked w1 @ [d]\<rparr>)"
    using assms(6,7,8) by (simp add: consult_def Let_def)
  have p: "process_tool_calls cfg dev (Some g) (content r) [] (world s)
             = (Inl StopIteration, w1\<lparr>asked := asked w1 @ [d]\<rparr>)"
    unfolding assms(4) process_append using assms(5) blk by simp
  from iteration_quit [where api = api and s = s, OF assms(2,3) p]
  obtain s1 where it: "iteration cfg dev (Some g) api s = (Break, s1)"
    and m: "messages s1 = messages s @ [AssistantTurn (content r)]"
    and pr: "printed s1 = printed s @ [UserQuit]"
    and w: "world s1 = w1\<lparr>asked := asked w1 @ [d]\<rparr>"
    and f: "final_response s1 = last_text (content r) (final_response s)"
    by blast
  from iteration_counts [OF it] have c: "iterations s1 = iterations s + 1" by simp
  have "run_loop cfg dev (Some g) api s = finish cfg s1"
    using run_loop_break [OF assms(1) it] .
  then show ?thesis
    using m pr w f c by (simp add: finish_def results_of_append)
qed

text \<open>
  C1, as the code has it. When the confirmation raises the abort signal at a request of a
  batch, after the requests before it have been processed with results \<open>rs\<close>, the run
  ends normally with the line \<open>User quit\<close> and returns the last text; the conversation
  ends with the assistant's turn and gains no tool result: the results \<open>rs\<close> of the
  invocations already completed are dropped with the batch, their device calls stay made.
\<close>

theorem abort_discards_batch:
  assumes "iterations s < max_iterations cfg"
    and "api (requests s) (messages s) = Inr r"
    and "stop_reason r \<noteq> ''end_turn''"
    and "content r = pre @ ToolUseBlock tool_id ''computer'' tool_input # post"
    and "process_tool_calls cfg dev (Some g) pre [] (world s) = (Inr rs, w1)"
    and "describe_action (get_default tool_input ''action'' (PStr ''''))
           (tool_input |` (- {''action''})) = Inr d"
    and "get_default tool_input ''action'' (PStr '''') \<noteq> PStr ''screenshot''"
    and "g (asked w1) d = Raises StopIteration"
  shows "\<exists>s'. run_loop cfg dev (Some g) api s
                 = (Inr (last_text (content r) (final_response s)), s') \<and>
              messages s' = messages s @ [AssistantTurn (content r)] \<and>
              results_of (messages s') = results_of (messages s) \<and>
              world s' = w1\<lparr>asked := asked w1 @ [d]\<rparr> \<and>
              printed s' = printed s @ [UserQuit] @
                (if iterations s + 1 \<ge> max_iterations cfg
                 then [MaxIterationsReached (max_iterations cfg)] else [])"
  using assms by (rule run_loop_abort)

lemma str_int_small: "str_int 1 = ''1''" "str_int 2 = ''2''" "str_int 3 = ''3''"
  by code_simp+

lemma first_click_done:
  "process_tool_calls small_config quiet_device (Some quit_at_second) [click_at ''a'' 1 1] []
     fresh_world
   = (Inr [\<lparr>tool_use_id = ''a'', body = TextBody ''Left clicked at (1, 1)'', is_error = False\<rparr>],
      \<lparr>trace = [Click (PInt 1) (PInt 1) ''left''], asked = [''Left click at (1, 1)'']\<rparr>)"
  by (simp add: agent_defs handler_defs quit_at_second_def fresh_world_def small_config_def
        quiet_device_def str_int_small)

lemma second_click_text:
  "describe_action
     (get_default [''action'' \<mapsto> PStr ''left_click'', ''coordinate'' \<mapsto> PList [2, 2]] ''action'' (PStr ''''))
     ([''action'' \<mapsto> PStr ''left_click'', ''coordinate'' \<mapsto> PList [2, 2]] |` (- {''action''}))
   = Inr ''Left click at (2, 2)''"
  by (simp add: agent_defs str_int_small)

lemma quit_at_second_run:
  "\<exists>s'. run small_config quiet_device (Some quit_at_second) clicking_api ''go'' fresh_world
           = (Inr '''', s') \<and>
         messages s' = [UserTask ''go'', AssistantTurn three_clicks] \<and>
         world s' = \<lparr>trace = [Click (PInt 1) (PInt 1) ''left''],
                     asked = [''Left click at (1, 1)'', ''Left click at (2, 2)'']\<rparr> \<and>
         printed s' = [UserQuit]"
proof -
  let ?s = "\<lparr>messages = [UserTask ''go''], iterations = 0, final_response = '''',
             world = fresh_world, requests = 0, printed = []\<rparr>"
  let ?r = "\<lparr>content = three_clicks, stop_reason = ''tool_use''\<rparr>"
  have 1: "iterations ?s < max_iterations small_config" by (simp add: small_config_def)
  have 2: "clicking_api (requests ?s) (messages ?s) = Inr ?r" by (simp add: clicking_api_def)
  have 3: "stop_reason ?r \<noteq> ''end_turn''" by simp
  have 4: "content ?r = [click_at ''a'' 1 1] @ ToolUseBlock ''b'' ''computer''
             [''action'' \<mapsto> PStr ''left_click'', ''coordinate'' \<mapsto> PList [2, 2]] # [click_at ''c'' 3 3]"
    by (simp add: three_clicks_def click_at_def)
  have 5: "process_tool_calls small_config quiet_device (Some quit_at_second) [click_at ''a'' 1 1] []
     (world ?s)
   = (Inr [\<lparr>tool_use_id = ''a'', body = TextBody ''Left clicked at (1, 1)'', is_error = False\<rparr>],
      \<lparr>trace = [Click (PInt 1) (PInt 1) ''left''], asked = [''Left click at (1, 1)'']\<rparr>)"
    using first_click_done by simp
  have 7: "get_default [''action'' \<mapsto> PStr ''left_click'', ''coordinate'' \<mapsto> PList [2, 2]]
             ''action'' (PStr '''') \<noteq> PStr ''screenshot''"
    by (simp add: get_default_def)
  have 8: "quit_at_second (asked \<lparr>trace = [Click (PInt 1) (PInt 1) ''left''],
               asked = [''Left click at (1, 1)'']\<rparr>) ''Left click at (2, 2)'' = Raises StopIteration"
    by (simp add: quit_at_second_def)
  from run_loop_abort [where api = clicking_api and s = ?s, OF 1 2 3 4 5 second_click_text 7 8]
  show ?thesis
    by (auto simp: run_def small_config_def three_clicks_def click_at_def)
qed

theorem abort_discards_batch_witness:
  "fst (run small_config quiet_device (Some quit_at_second) clicking_api ''go'' fresh_world) = Inr ''''
   \<and> messages (snd (run small_config quiet_device (Some quit_at_second) clicking_api ''go''
                       fresh_world))
       = [UserTask ''go'', AssistantTurn three_clicks]
   \<and> printed (snd (run small_config quiet_device (Some quit_at_second) clicking_api ''go''
                       fresh_world))
       = [UserQuit]"
proof -
  let ?s = "\<lparr>messages = [UserTask ''go''], iterations = 0, final_response = '''',
             world = fresh_world, requests = 0, printed = []\<rparr>"
  let ?r = "\<lparr>content = three_clicks, stop_reason = ''tool_use''\<rparr>"
  have 1: "iterations ?s < max_iterations small_config" by (simp add: small_config_def)
  have 2: "clicking_api (requests ?s) (messages ?s) = Inr ?r" by (simp add: clicking_api_def)
  have 3: "stop_reason ?r \<noteq> ''end_turn''" by simp
  have 4: "content ?r = [click_at ''a'' 1 1] @ ToolUseBlock ''b'' ''computer''
             [''action'' \<mapsto> PStr ''left_click'', ''coordinate'' \<mapsto> PList [2, 2]] # [click_at ''c'' 3 3]"
    by (simp add: three_clicks_def click_at_def)
  have 5: "process_tool_calls small_config quiet_device (Some quit_at_second) [click_at ''a'' 1 1] []
     (world ?s)
   = (Inr [\<lparr>tool_use_id = ''a'', body = TextBody ''Left clicked at (1, 1)'', is_error = False\<rparr>],
      \<lparr>trace = [Click (PInt 1) (PInt 1) ''left''], asked = [''Left click at (1, 1)'']\<rparr>)"
    using first_click_done by simp
  have 7: "get_default [''action'' \<mapsto> PStr ''left_click'', ''coordinate'' \<mapsto> PList [2, 2]]
             ''action'' (PStr '''') \<noteq> PStr ''screenshot''"
    by (simp add: get_default_def)
  have 8: "quit_at_second (asked \<lparr>trace = [Click (PInt 1) (PInt 1) ''left''],
               asked = [''Left click at (1, 1)'']\<rparr>) ''Left click at (2, 2)'' = Raises StopIteration"
    by (simp add: quit_at_second_def)
  from abort_discards_batch [where api = clicking_api and s = ?s, OF 1 2 3 4 5 second_click_text 7 8]
  show ?thesis
    by (auto simp: run_def small_config_def three_clicks_def click_at_def)
qed

text \<open>
  Three clicks, the user quitting at the second: the first click has been made, and the
  conversation holds no tool result, not one.
\<close>

theorem abort_keeps_no_result_counterexample:
  "results_of (messages (snd (run small_config quiet_device (Some quit_at_second)
                               clicking_api ''go'' fresh_world))) = []
   \<and> length (results_of (messages (snd (run small_config quiet_device (Some quit_at_second)
                                       clicking_api ''go'' fresh_world)))) \<noteq> 1
   \<and> trace (world (snd (run small_config quiet_device (Some quit_at_second)
                          clicking_api ''go'' fresh_world)))
       = [Click (PInt 1) (PInt 1) ''left'']"
  using quit_at_second_run by auto

text \<open>
  C8 fails on the code. \<open>describe_action\<close> raises on a click whose coordinate is the
  empty list, and the exception leaves \<open>run\<close>; \<open>execute\<close>, on the same parameters,
  returns an error outcome.
\<close>

theorem describe_action_raises:
  "describe_action (PStr ''left_click'') [''coordinate'' \<mapsto> PList []]
     = Inl (IndexError ''list index out of range'')
   \<and> fst (run small_config quiet_device None malformed_api ''go'' fresh_world)
     = Inl (IndexError ''list index out of range'')
   \<and> execute small_config quiet_device (PStr ''left_click'') [''coordinate'' \<mapsto> PList []] []
     = (Inr (Error ''Action 'left_click' failed: not enough values to unpack (expected 2, got 0)''),
        [])"
proof -
  have a: "describe_action (PStr ''left_click'') [''coordinate'' \<mapsto> PList []]
     = Inl (IndexError ''list index out of range'')"
    by (simp add: agent_defs)
  have b: "fst (run small_config quiet_device None malformed_api ''go'' fresh_world)
     = Inl (IndexError ''list index out of range'')"
    unfolding run_def
    by (subst run_loop.simps)
       (simp add: small_config_def iteration_def malformed_api_def malformed_click_def agent_defs)
  have c: "execute small_config quiet_device (PStr ''left_click'') [''coordinate'' \<mapsto> PList []] []
     = (Inr (Error ''Action 'left_click' failed: not enough values to unpack (expected 2, got 0)''),
        [])"
    by (simp add: handler_defs str_nat.simps [of 0])
  from a b c show ?thesis by simp
qed

text \<open>
  C2 fails on the code. The assistant's turn asks for one click whose coordinate is the
  empty list, and the confirmation would proceed (or there is none): computing the
  description raises before the confirmation is asked, the exception leaves \<open>run\<close>,
  and no turn of results follows the turn of the assistant.
\<close>

theorem malformed_request_gets_no_result_turn:
  "fst (run small_config quiet_device (Some always_yes) malformed_api ''go'' fresh_world)
     = Inl (IndexError ''list index out of range'')
   \<and> messages (snd (run small_config quiet_device (Some always_yes) malformed_api ''go''
                       fresh_world))
     = [UserTask ''go'', AssistantTurn [malformed_click]]
   \<and> asked (world (snd (run small_config quiet_device (Some always_yes) malformed_api ''go''
                            fresh_world))) = []
   \<and> messages (snd (run small_config quiet_device None malformed_api ''go'' fresh_world))
     = [UserTask ''go'', AssistantTurn [malformed_click]]"
proof -
  have mx: "max_iterations small_config = 3" by (simp add: small_config_def)
  have lt: "last_text [malformed_click] t = t" for t by (simp add: malformed_click_def)
  have p: "process_tool_calls small_config quiet_device cb [malformed_click] [] fresh_world
             = (Inl (IndexError ''list index out of range''), fresh_world)" for cb
    by (simp add: malformed_click_def agent_defs)
  have r: "run small_config quiet_device cb malformed_api ''go'' fresh_world
      = (Inl (IndexError ''list index out of range''),
         \<lparr>messages = [UserTask ''go'', AssistantTurn [malformed_click]], iterations = 1,
          final_response = '''', world = fresh_world, requests = 1, printed = []\<rparr>)" for cb
    unfolding run_def
    by (subst run_loop.simps)
       (simp add: mx lt iteration_def malformed_api_def p Let_def)
  show ?thesis using r [of "Some always_yes"] r [of None] by (simp add: fresh_world_def)
qed

text \<open>
  C6 fails on the code. With a confirmation that always skips, a click whose coordinate
  is the empty list gets no result at all: computing its description raises before the
  confirmation is asked, and the exception leaves \<open>run\<close>.
\<close>

theorem always_skip_malformed_request_raises:
  "process_tool_calls small_config quiet_device (Some always_skip) [malformed_click] [] fresh_world
     = (Inl (IndexError ''list index out of range''), fresh_world)
   \<and> results_of (messages (snd (run small_config quiet_device (Some always_skip) malformed_api
                                   ''go'' fresh_world))) = []
   \<and> fst (run small_config quiet_device (Some always_skip) malformed_api ''go'' fresh_world)
     = Inl (IndexError ''list index out of range'')"
proof -
  have mx: "max_iterations small_config = 3" by (simp add: small_config_def)
  have lt: "last_text [malformed_click] t = t" for t by (simp add: malformed_click_def)
  have p: "process_tool_calls small_config quiet_device (Some always_skip) [malformed_click] []
             fresh_world
             = (Inl (IndexError ''list index out of range''), fresh_world)"
    by (simp add: malformed_click_def agent_defs)
  have r: "run small_config quiet_device (Some always_skip) malformed_api ''go'' fresh_world
      = (Inl (IndexError ''list index out of range''),
         \<lparr>messages = [UserTask ''go'', AssistantTurn [malformed_click]], iterations = 1,
          final_response = '''', world = fresh_world, requests = 1, printed = []\<rparr>)"
    unfolding run_def
    by (subst run_loop.simps)
       (simp add: mx lt iteration_def malformed_api_def p Let_def)
  show ?thesis by (simp add: r p)
qed

end
